theory Spec2Isabelle
  imports Complex_Main "HOL-Library.Multiset"
begin

section \<open>Der Die Das: the spreadsheet loader and the quiz controller\<close>

text \<open>
  A shallow embedding of \<^verbatim>\<open>src/der_die_das.py\<close>. The loader
  \<^verbatim>\<open>load_word_article_pairs\<close> is a pure function of what the file system and the
  two spreadsheet libraries hand back, so those are inputs of the model. The quiz
  controller \<^verbatim>\<open>DerDieDasApp\<close> is a record of its attributes with one function per
  method; widgets other than the score label carry no state a property below depends on
  and are left out.
\<close>

subsection \<open>Strings and cell values\<close>

text \<open>
  A Python string is modelled as a \<^typ>\<open>string\<close> whose characters are the code points
  below 256. \<^verbatim>\<open>str.strip()\<close> removes the characters for which Python's
  \<^verbatim>\<open>isspace\<close> holds: in this range 9 to 13, 28 to 32, 133 and 160.
  \<^verbatim>\<open>str.lower()\<close> maps A to Z and the Latin-1 capitals (192 to 222 except 215) to
  the character 32 places further on and leaves every other character of the range alone.
\<close>

definition isspace :: "char \<Rightarrow> bool" where
  "isspace c = (let n = (of_char c :: nat) in
      (9 \<le> n \<and> n \<le> 13) \<or> (28 \<le> n \<and> n \<le> 32) \<or> n = 133 \<or> n = 160)"

definition lower_char :: "char \<Rightarrow> char" where
  "lower_char c = (let n = (of_char c :: nat) in
      if (65 \<le> n \<and> n \<le> 90) \<or> (192 \<le> n \<and> n \<le> 222 \<and> n \<noteq> 215)
      then char_of (n + 32) else c)"

definition strip :: "string \<Rightarrow> string" where
  "strip s = rev (dropWhile isspace (rev (dropWhile isspace s)))"

definition lower :: "string \<Rightarrow> string" where
  "lower s = map lower_char s"

text \<open>
  A cell value is \<^verbatim>\<open>None\<close> or some other Python object; the loader only ever
  looks at \<^verbatim>\<open>v is None\<close> and at \<^verbatim>\<open>str(v)\<close>, so a value that is not
  \<^verbatim>\<open>None\<close> is represented by its \<^verbatim>\<open>str\<close>.
\<close>

type_synonym cell = "string option"

type_synonym pair = "string \<times> string"

text \<open>\<^verbatim>\<open>_clean\<close> (lines 26 to 29).\<close>

definition clean :: "cell \<Rightarrow> string" where
  "clean s = (case s of None \<Rightarrow> [] | Some v \<Rightarrow> strip v)"

definition valid_articles :: "string set" where
  "valid_articles = {''der'', ''die'', ''das''}"

subsection \<open>The two grids: a pandas frame or the fallback wrapper\<close>

text \<open>
  What \<^verbatim>\<open>pd.read_excel(xlsx_path, header=None)\<close> returns (line 35) is a rectangle
  in which an empty cell of the sheet is NaN and any other cell is a value, given by its
  \<^verbatim>\<open>str\<close>. Each column has a dtype; \<open>rf_object c\<close> says that column \<open>c\<close> has
  dtype \<^verbatim>\<open>object\<close>, the only dtype whose cells can hold \<^verbatim>\<open>None\<close>. A column
  of numbers and empty cells is \<^verbatim>\<open>float64\<close>, and pandas 3 gives a column of
  texts the dtype \<^verbatim>\<open>str\<close>.
\<close>

datatype pcell = NaN | Val string

record raw_frame =
  rf_nrows :: nat
  rf_ncols :: nat
  rf_object :: "nat \<Rightarrow> bool"
  rf_at :: "nat \<Rightarrow> nat \<Rightarrow> pcell"

text \<open>
  The frame the builders read: its shape and the cell at each position.
  \<^verbatim>\<open>iloc\<close> raises \<^verbatim>\<open>IndexError\<close> outside the shape, which is \<open>None\<close> here.
\<close>

record dataframe =
  df_nrows :: nat
  df_ncols :: nat
  df_at :: "nat \<Rightarrow> nat \<Rightarrow> cell"

text \<open>
  Line 36, \<^verbatim>\<open>df.where(pd.notnull(df), None)\<close>: a NaN becomes \<^verbatim>\<open>None\<close> in a
  column of dtype \<^verbatim>\<open>object\<close>; in any other column the \<^verbatim>\<open>None\<close> is coerced
  back and the cell stays NaN, whose \<^verbatim>\<open>str\<close> is \<^verbatim>\<open>nan\<close>.
\<close>

definition where_notnull :: "raw_frame \<Rightarrow> dataframe" where
  "where_notnull raw =
     \<lparr>df_nrows = rf_nrows raw, df_ncols = rf_ncols raw,
      df_at = (\<lambda>r c. case rf_at raw r c of
                       NaN \<Rightarrow> if rf_object raw c then None else Some ''nan''
                     | Val v \<Rightarrow> Some v)\<rparr>"

definition iloc_col :: "dataframe \<Rightarrow> nat \<Rightarrow> cell list option" where
  "iloc_col df c =
     (if c < df_ncols df then Some (map (\<lambda>r. df_at df r c) [0..<df_nrows df]) else None)"

definition iloc_row :: "dataframe \<Rightarrow> nat \<Rightarrow> cell list option" where
  "iloc_row df r =
     (if r < df_nrows df then Some (map (\<lambda>c. df_at df r c) [0..<df_ncols df]) else None)"

text \<open>The class \<^verbatim>\<open>_Wrapper\<close> (lines 68 to 77) around the list of rows.\<close>

definition max_len :: "'a list list \<Rightarrow> nat" where
  "max_len rows = fold (\<lambda>rw m. max (length rw) m) rows 0"

definition shape :: "cell list list \<Rightarrow> nat \<times> nat" where
  "shape data = (length data, max_len data)"

definition get_col :: "cell list list \<Rightarrow> nat \<Rightarrow> cell list" where
  "get_col data c = map (\<lambda>row. if c < length row then row ! c else None) data"

definition get_row :: "cell list list \<Rightarrow> nat \<Rightarrow> cell list" where
  "get_row data r = (if r < length data then data ! r else [])"

datatype df_like = Pandas dataframe | Wrapper "cell list list"

subsection \<open>The fallback reader (lines 47 to 66)\<close>

text \<open>
  \<open>ws r\<close> is \<^verbatim>\<open>[cell.value for cell in ws[r]]\<close> for row \<open>r\<close> of the active
  sheet, rows counted from 1: the values of the row, or \<open>Inl\<close> the text of the
  exception when the access raises, as a read-only worksheet does for a row past its
  used range (\<^verbatim>\<open>IndexError: tuple index out of range\<close>). The loop runs inside the
  \<^verbatim>\<open>try\<close> of lines 43 to 81, so an exception ends it. Nothing else bounds the loop
  but the streak of empty rows, so it is a partial function: \<open>None\<close> is a scan that
  never ends, \<open>Some (Inl details)\<close> one that an exception ended, and \<open>Some (Inr _)\<close>
  the loop's final state, the rows collected, the streak and the row counter.
\<close>

type_synonym worksheet = "nat \<Rightarrow> string + cell list"

partial_function (option) scan_rows ::
  "worksheet \<Rightarrow> cell list list \<Rightarrow> nat \<Rightarrow> nat \<Rightarrow>
     (string + cell list list \<times> nat \<times> nat) option"
where
  "scan_rows ws rows empty_streak r =
     (if empty_streak < 10 then
        (case ws r of
           Inl details \<Rightarrow> Some (Inl details)
         | Inr row_vals \<Rightarrow>
             if length row_vals = 0 then scan_rows ws rows (empty_streak + 1) (r + 1)
             else if list_all (\<lambda>v. v = None) row_vals
               then scan_rows ws rows (empty_streak + 1) (r + 1)
             else scan_rows ws (rows @ [row_vals]) 0 (r + 1))
      else Some (Inr (rows, empty_streak, r)))"

declare scan_rows.simps [code]

text \<open>Lines 63 to 66: every row is padded with \<^verbatim>\<open>None\<close> to the longest row.\<close>

definition pad_rows :: "cell list list \<Rightarrow> cell list list" where
  "pad_rows rows =
     (let maxc = max_len rows in
      map (\<lambda>rw. if length rw < maxc then rw @ replicate (maxc - length rw) None else rw) rows)"

subsection \<open>The builders (lines 84 to 128)\<close>

text \<open>
  Both builders end in the same loop over \<^verbatim>\<open>zip\<close> of two cell lists; \<open>pairs\<close> is
  the list the loop appends to.
\<close>

fun collect :: "(cell \<times> cell) list \<Rightarrow> pair list \<Rightarrow> pair list" where
  "collect [] pairs = pairs"
| "collect ((w, a) # rest) pairs =
     (let w' = clean w; a' = lower (clean a) in
      if w' \<noteq> [] \<and> a' \<in> valid_articles then collect rest (pairs @ [(w', a')])
      else collect rest pairs)"

text \<open>
  The \<^verbatim>\<open>try\<close> blocks that fetch the two cell lists; \<open>None\<close> is the early
  \<^verbatim>\<open>return pairs\<close> with the list still empty.
\<close>

definition vertical_cells :: "df_like \<Rightarrow> (cell list \<times> cell list) option" where
  "vertical_cells df_like =
     (case df_like of
        Pandas df \<Rightarrow>
          (case iloc_col df 0 of
             None \<Rightarrow> None
           | Some col_w \<Rightarrow>
               (case iloc_col df 1 of None \<Rightarrow> None | Some col_a \<Rightarrow> Some (col_w, col_a)))
      | Wrapper data \<Rightarrow> Some (get_col data 0, get_col data 1))"

definition horizontal_cells :: "df_like \<Rightarrow> (cell list \<times> cell list) option" where
  "horizontal_cells df_like =
     (case df_like of
        Pandas df \<Rightarrow>
          (if df_nrows df < 2 then None
           else (case iloc_row df 0 of
                   None \<Rightarrow> None
                 | Some row_words \<Rightarrow>
                     (case iloc_row df 1 of
                        None \<Rightarrow> None
                      | Some row_arts \<Rightarrow> Some (row_words, row_arts))))
      | Wrapper data \<Rightarrow>
          (if fst (shape data) < 2 then None
           else Some (get_row data 0, get_row data 1)))"

definition build_vertical_pairs :: "df_like \<Rightarrow> pair list" where
  "build_vertical_pairs df_like =
     (case vertical_cells df_like of
        None \<Rightarrow> []
      | Some (col_w, col_a) \<Rightarrow> collect (zip col_w col_a) [])"

definition build_horizontal_pairs :: "df_like \<Rightarrow> pair list" where
  "build_horizontal_pairs df_like =
     (case horizontal_cells df_like of
        None \<Rightarrow> []
      | Some (row_words, row_arts) \<Rightarrow> collect (zip row_words row_arts) [])"

subsection \<open>Choosing the layout and the loader itself\<close>

text \<open>The \<^verbatim>\<open>orientation\<close> argument is any Python value; only a string is looked at.\<close>

datatype pyarg = Str string | NotStr

datatype error =
    FileNotFoundError string
  | RuntimeError string
  | ValueError string
  | IndexError
  | AttributeError
  | KeyError

definition resolve_choice :: "pyarg \<Rightarrow> string" where
  "resolve_choice orientation = (case orientation of Str s \<Rightarrow> lower s | NotStr \<Rightarrow> ''auto'')"

text \<open>Lines 130 to 140.\<close>

definition chosen_pairs :: "df_like \<Rightarrow> pyarg \<Rightarrow> pair list" where
  "chosen_pairs df orientation =
     (let vertical_pairs = build_vertical_pairs df;
          horizontal_pairs = build_horizontal_pairs df;
          choice = resolve_choice orientation
      in if choice = ''vertical'' then vertical_pairs
         else if choice = ''horizontal'' then horizontal_pairs
         else if length horizontal_pairs \<le> length vertical_pairs then vertical_pairs
         else horizontal_pairs)"

text \<open>
  Lines 142 to 148. The message of the \<^verbatim>\<open>ValueError\<close> goes on to describe the two
  layouts; only its first line is kept here.
\<close>

definition select_pairs :: "df_like \<Rightarrow> pyarg \<Rightarrow> error + pair list" where
  "select_pairs df orientation =
     (let chosen = chosen_pairs df orientation in
      if chosen = [] then Inl (ValueError ''No valid (word, article) pairs found.'')
      else Inr chosen)"

text \<open>
  What the loader asks of the world: whether the path exists, what
  \<^verbatim>\<open>pd.read_excel\<close> gives (\<open>None\<close> when anything in lines 33 to 37 raises) and what
  \<^verbatim>\<open>load_workbook(...).active\<close> gives (\<open>Inl\<close> the text of the exception when
  importing or opening raises, else the worksheet).
\<close>

record env =
  path_exists :: "string \<Rightarrow> bool"
  pandas_read :: "string \<Rightarrow> raw_frame option"
  openpyxl_load :: "string \<Rightarrow> string + worksheet"

text \<open>
  Lines 21 to 81: the grid, an error, or \<open>None\<close> when the fallback scan never ends.
  Whatever raises between lines 43 and 79, the import, the opening or a row access of
  the scan, is raised again as \<^verbatim>\<open>RuntimeError\<close> with its text (lines 80 and 81).
\<close>

definition read_grid :: "env \<Rightarrow> string \<Rightarrow> (error + df_like) option" where
  "read_grid e xlsx_path =
     (if \<not> path_exists e xlsx_path
      then Some (Inl (FileNotFoundError (''Excel file not found: '' @ xlsx_path)))
      else (case pandas_read e xlsx_path of
              Some raw \<Rightarrow> Some (Inr (Pandas (where_notnull raw)))
            | None \<Rightarrow>
                (case openpyxl_load e xlsx_path of
                   Inl details \<Rightarrow>
                     Some (Inl (RuntimeError
                       (''Failed to read Excel with pandas or openpyxl. Details: '' @ details)))
                 | Inr ws \<Rightarrow>
                     (case scan_rows ws [] 0 1 of
                        None \<Rightarrow> None
                      | Some (Inl details) \<Rightarrow>
                          Some (Inl (RuntimeError
                            (''Failed to read Excel with pandas or openpyxl. Details: ''
                               @ details)))
                      | Some (Inr (rows, empty_streak, r)) \<Rightarrow>
                          Some (Inr (Wrapper (pad_rows rows)))))))"

definition load_word_article_pairs :: "env \<Rightarrow> string \<Rightarrow> pyarg \<Rightarrow> (error + pair list) option" where
  "load_word_article_pairs e xlsx_path orientation =
     (case read_grid e xlsx_path of
        None \<Rightarrow> None
      | Some (Inl err) \<Rightarrow> Some (Inl err)
      | Some (Inr df) \<Rightarrow> Some (select_pairs df orientation))"

subsection \<open>The quiz controller \<^verbatim>\<open>DerDieDasApp\<close>\<close>

text \<open>
  The attributes of the application object. \<open>current\<close> holds
  \<^verbatim>\<open>current_word\<close> and \<^verbatim>\<open>current_art\<close>, which do not exist before the first
  question is drawn. \<open>score_label\<close> holds the three numbers last written into the label
  \<^verbatim>\<open>Score: s / n (acc%)\<close>. \<open>scheduled\<close> counts the callbacks registered by
  \<^verbatim>\<open>self.after(150, self.next_question)\<close> that have not fired yet, and \<open>rng\<close> is
  the state of the random number generator.
\<close>

record app =
  pairs :: "pair list"
  deck :: "pair list"
  idx :: nat
  waiting_for_next :: bool
  score :: int
  seen :: int
  current :: "pair option"
  score_label :: "int \<times> int \<times> int"
  scheduled :: nat
  rng :: nat

text \<open>
  \<^verbatim>\<open>random.shuffle\<close> takes the generator's state and a list and gives the list
  rearranged and the next state. Which rearrangement is not fixed by the program; what
  is known of it is that it is one.
\<close>

type_synonym shuffler = "nat \<Rightarrow> pair list \<Rightarrow> pair list \<times> nat"

definition is_shuffle :: "shuffler \<Rightarrow> bool" where
  "is_shuffle sh = (\<forall>g xs. mset (fst (sh g xs)) = mset xs)"

text \<open>
  A method either returns or raises; when it raises, the attributes it has already
  assigned stay assigned, so the error comes with the state at that point.
\<close>

type_synonym outcome = "(error \<times> app) + app"

definition state_of :: "outcome \<Rightarrow> app" where
  "state_of r = (case r of Inl (e, st) \<Rightarrow> st | Inr st \<Rightarrow> st)"

text \<open>Lines 158 to 163 of \<^verbatim>\<open>__init__\<close>, and the label's first text (line 177).\<close>

definition new_app :: "pair list \<Rightarrow> nat \<Rightarrow> app" where
  "new_app ps g =
     \<lparr>pairs = ps, deck = [], idx = 0, waiting_for_next = False, score = 0, seen = 0,
      current = None, score_label = (0, 0, 0), scheduled = 0, rng = g\<rparr>"

text \<open>
  Python's \<^verbatim>\<open>round\<close> of a float goes to the nearest integer and, halfway between
  two, to the even one. The quotient \<^verbatim>\<open>score * 100 / seen\<close> is taken exactly here; the
  float Python computes rounds to the same integer as long as \<^verbatim>\<open>score * 100\<close> stays
  below \<open>2\<^sup>5\<^sup>2\<close>.
\<close>

definition py_round :: "rat \<Rightarrow> int" where
  "py_round x =
     (let f = \<lfloor>x\<rfloor>; d = x - of_int f in
      if d < 1 / 2 then f else if 1 / 2 < d then f + 1 else if even f then f else f + 1)"

definition update_score_label :: "app \<Rightarrow> app" where
  "update_score_label st =
     (let acc = (if seen st = 0 then 0
                 else py_round (of_int (score st * 100) / of_int (seen st)))
      in st\<lparr>score_label := (score st, seen st, acc)\<rparr>)"

definition next_question :: "shuffler \<Rightarrow> app \<Rightarrow> outcome" where
  "next_question sh st0 =
     (let st1 = (if waiting_for_next st0 then st0\<lparr>waiting_for_next := False\<rparr> else st0);
          st2 = (if length (deck st1) \<le> idx st1
                 then (case sh (rng st1) (pairs st1) of
                         (ps, g) \<Rightarrow> st1\<lparr>pairs := ps, deck := ps, idx := 0, rng := g\<rparr>)
                 else st1)
      in if idx st2 < length (deck st2)
         then Inr (update_score_label
                (st2\<lparr>current := Some (deck st2 ! idx st2),
                     idx := idx st2 + 1,
                     seen := seen st2 + 1\<rparr>))
         else Inl (IndexError, st2))"

definition start_quiz :: "shuffler \<Rightarrow> app \<Rightarrow> outcome" where
  "start_quiz sh st =
     (case sh (rng st) (pairs st) of
        (ps, g) \<Rightarrow>
          next_question sh
            (update_score_label
              (st\<lparr>pairs := ps, deck := ps, idx := 0, score := 0, seen := 0,
                  waiting_for_next := False, rng := g\<rparr>)))"

definition submit :: "string \<Rightarrow> app \<Rightarrow> outcome" where
  "submit guess st =
     (if waiting_for_next st then Inr st
      else (case current st of
              None \<Rightarrow> Inl (AttributeError, st)
            | Some (current_word, current_art) \<Rightarrow>
                if guess = current_art
                then Inr ((update_score_label (st\<lparr>score := score st + 1\<rparr>))
                            \<lparr>scheduled := scheduled st + 1\<rparr>)
                else Inr (update_score_label (st\<lparr>waiting_for_next := True\<rparr>))))"

definition key_to_article :: "string \<rightharpoonup> string" where
  "key_to_article = [''1'' \<mapsto> ''der'', ''2'' \<mapsto> ''die'', ''3'' \<mapsto> ''das'']"

definition on_key :: "shuffler \<Rightarrow> string \<Rightarrow> app \<Rightarrow> outcome" where
  "on_key sh key st =
     (if waiting_for_next st then next_question sh st
      else if key \<in> {''1'', ''2'', ''3''}
        then (case key_to_article key of
                None \<Rightarrow> Inl (KeyError, st)
              | Some article \<Rightarrow> submit article st)
      else Inr st)"

text \<open>The event loop firing one callback registered by \<^verbatim>\<open>after\<close>.\<close>

definition fire_scheduled :: "shuffler \<Rightarrow> app \<Rightarrow> outcome" where
  "fire_scheduled sh st =
     (if scheduled st = 0 then Inr st
      else next_question sh (st\<lparr>scheduled := scheduled st - 1\<rparr>))"

text \<open>
  What can happen to the window: the Start and Next buttons, an answer button, a key
  and a timer. Which buttons are enabled is not modelled, so every event is possible in
  every state; the states reached this way include all the program reaches. An exception
  in a callback is reported by Tk and the loop goes on from the state it left.
\<close>

datatype event = Start | Next | Answer string | Key string | Timer

definition handle :: "shuffler \<Rightarrow> event \<Rightarrow> app \<Rightarrow> outcome" where
  "handle sh ev st =
     (case ev of
        Start \<Rightarrow> start_quiz sh st
      | Next \<Rightarrow> next_question sh st
      | Answer guess \<Rightarrow> submit guess st
      | Key key \<Rightarrow> on_key sh key st
      | Timer \<Rightarrow> fire_scheduled sh st)"

fun run :: "shuffler \<Rightarrow> event list \<Rightarrow> app \<Rightarrow> app" where
  "run sh [] st = st"
| "run sh (ev # evs) st = run sh evs (state_of (handle sh ev st))"

text \<open>Drawing \<open>k\<close> questions in a row, stopping at the first that raises.\<close>

fun draw_many :: "shuffler \<Rightarrow> nat \<Rightarrow> app \<Rightarrow> outcome" where
  "draw_many sh 0 st = Inr st"
| "draw_many sh (Suc k) st =
     (case next_question sh st of Inl x \<Rightarrow> Inl x | Inr st' \<Rightarrow> draw_many sh k st')"

subsection \<open>The specification's notions\<close>

text \<open>
  The specification's rule for a candidate pair, in its own words: both values trimmed,
  the article lowercased, the word not empty and the article one of der, die, das. It
  is stated of the cells the builders are handed; \<^verbatim>\<open>None\<close> counts as the empty text.
\<close>

definition spec_keep :: "cell \<times> cell \<Rightarrow> bool" where
  "spec_keep c =
     (case c of (w, a) \<Rightarrow>
        strip (case w of None \<Rightarrow> [] | Some v \<Rightarrow> v) \<noteq> [] \<and>
        lower (strip (case a of None \<Rightarrow> [] | Some v \<Rightarrow> v)) \<in> {''der'', ''die'', ''das''})"

definition normalise :: "cell \<times> cell \<Rightarrow> pair" where
  "normalise c = (case c of (w, a) \<Rightarrow> (clean w, lower (clean a)))"

text \<open>
  \<^verbatim>\<open>orientation\<close> resolves to automatic selection when it names neither layout.
\<close>

definition auto_mode :: "pyarg \<Rightarrow> bool" where
  "auto_mode orientation =
     (resolve_choice orientation \<noteq> ''vertical'' \<and> resolve_choice orientation \<noteq> ''horizontal'')"

text \<open>The number of columns of a grid: \<^verbatim>\<open>shape[1]\<close>.\<close>

definition width :: "df_like \<Rightarrow> nat" where
  "width df_like =
     (case df_like of Pandas df \<Rightarrow> df_ncols df | Wrapper data \<Rightarrow> snd (shape data))"


text \<open>
  Row \<open>r\<close> of a worksheet is readable when reading it does not raise. A fully-empty row
  holds no value in any cell (a row with no cells is one). A gap starts at row \<open>g\<close>
  when rows \<open>g\<close> to \<open>g + 9\<close> are readable and fully empty; it is the first gap when all
  rows above it are readable and no gap starts at an earlier row. The compaction of the
  sheet above row \<open>g\<close> is its rows 1 to \<open>g - 1\<close> with the fully-empty ones taken out.
  The first raise is at row \<open>x\<close> when reading \<open>x\<close> raises, all rows above are readable
  and no gap starts above \<open>x\<close>.
\<close>

definition readable :: "worksheet \<Rightarrow> nat \<Rightarrow> bool" where
  "readable ws r = (case ws r of Inl details \<Rightarrow> False | Inr row_vals \<Rightarrow> True)"

definition row_values :: "worksheet \<Rightarrow> nat \<Rightarrow> cell list" where
  "row_values ws r = (case ws r of Inl details \<Rightarrow> [] | Inr row_vals \<Rightarrow> row_vals)"

definition empty_row :: "cell list \<Rightarrow> bool" where
  "empty_row row = list_all (\<lambda>v. v = None) row"

definition empty_at :: "worksheet \<Rightarrow> nat \<Rightarrow> bool" where
  "empty_at ws r = (readable ws r \<and> empty_row (row_values ws r))"

definition gap_at :: "worksheet \<Rightarrow> nat \<Rightarrow> bool" where
  "gap_at ws g = list_all (\<lambda>i. empty_at ws (g + i)) [0..<10]"

definition first_gap :: "worksheet \<Rightarrow> nat \<Rightarrow> bool" where
  "first_gap ws g =
     (1 \<le> g \<and> list_all (readable ws) [1..<g] \<and> gap_at ws g \<and>
      list_all (\<lambda>g'. \<not> gap_at ws g') [1..<g])"

definition first_raise :: "worksheet \<Rightarrow> nat \<Rightarrow> string \<Rightarrow> bool" where
  "first_raise ws x details =
     (1 \<le> x \<and> ws x = Inl details \<and> list_all (readable ws) [1..<x] \<and>
      list_all (\<lambda>g'. \<not> gap_at ws g') [1..<x])"

definition compaction :: "worksheet \<Rightarrow> nat \<Rightarrow> cell list list" where
  "compaction ws g = filter (\<lambda>row. \<not> empty_row row) (map (row_values ws) [1..<g])"

text \<open>The score label shows the current counters and their accuracy.\<close>

definition label_fresh :: "app \<Rightarrow> bool" where
  "label_fresh st =
     (score_label st =
        (score st, seen st,
         if seen st = 0 then 0 else py_round (of_int (score st * 100) / of_int (seen st))))"

subsection \<open>Sample inputs\<close>

text \<open>
  A frame of texts as pandas 2 reads it, every column of dtype \<^verbatim>\<open>object\<close>, and
  an environment in which pandas reads the file.
\<close>

definition frame_of :: "string list list \<Rightarrow> nat \<Rightarrow> raw_frame" where
  "frame_of rows ncols =
     \<lparr>rf_nrows = length rows, rf_ncols = ncols, rf_object = (\<lambda>c. True),
      rf_at = (\<lambda>r c. Val (rows ! r ! c))\<rparr>"

definition pandas_env :: "raw_frame \<Rightarrow> env" where
  "pandas_env raw =
     \<lparr>path_exists = (\<lambda>p. True), pandas_read = (\<lambda>p. Some raw),
      openpyxl_load = (\<lambda>p. Inl ''No module named openpyxl'')\<rparr>"

definition haus_frame :: raw_frame where
  "haus_frame = frame_of [[''Haus'', ''das''], [''Mann'', ''der''], [''Frau'', ''die'']] 2"

definition den_frame :: raw_frame where
  "den_frame = frame_of [[''Haus'', ''den'']] 2"

definition tie_frame :: raw_frame where
  "tie_frame = frame_of [[''Haus'', ''das''], [''der'', ''die'']] 2"

definition wide_frame :: raw_frame where
  "wide_frame =
     frame_of [[''Haus'', ''das'', ''house'', ''building''],
               [''Mann'', ''der'', ''der'', ''die'']] 4"

text \<open>
  The sheet whose only row has A1 empty and B1 = der: column 0 holds no value at all,
  so its dtype is \<^verbatim>\<open>float64\<close>.
\<close>

definition nan_frame :: raw_frame where
  "nan_frame =
     \<lparr>rf_nrows = 1, rf_ncols = 2, rf_object = (\<lambda>c. c = 1),
      rf_at = (\<lambda>r c. if c = 0 then NaN else Val ''der'')\<rparr>"

definition unreadable_env :: env where
  "unreadable_env =
     \<lparr>path_exists = (\<lambda>p. True), pandas_read = (\<lambda>p. None),
      openpyxl_load = (\<lambda>p. Inl ''File is not a zip file'')\<rparr>"

definition missing_env :: env where
  "missing_env =
     \<lparr>path_exists = (\<lambda>p. False), pandas_read = (\<lambda>p. None),
      openpyxl_load = (\<lambda>p. Inl ''No such file'')\<rparr>"

text \<open>
  A read-only worksheet whose used range is the given rows: a row past it raises. An
  environment in which pandas fails and openpyxl opens the sheet. Three sheets: two data
  rows and nothing more; two data rows, ten empty rows and data again in row 13; words
  in row 1 and articles in row 4 with two blank rows between, then ten empty rows and a
  last row 15.
\<close>

definition sheet_of :: "cell list list \<Rightarrow> worksheet" where
  "sheet_of rows r =
     (if 1 \<le> r \<and> r \<le> length rows then Inr (rows ! (r - 1))
      else Inl ''tuple index out of range'')"

definition fallback_env :: "worksheet \<Rightarrow> env" where
  "fallback_env ws =
     \<lparr>path_exists = (\<lambda>p. True), pandas_read = (\<lambda>p. None), openpyxl_load = (\<lambda>p. Inr ws)\<rparr>"

definition short_sheet :: worksheet where
  "short_sheet = sheet_of [[Some ''Haus'', Some ''das''], [Some ''Mann'', Some ''der'']]"


definition spaced_sheet :: worksheet where
  "spaced_sheet =
     sheet_of ([[Some ''Haus'', Some ''Mann'', Some ''Frau''], [None, None, None], [],
                [Some ''das'', Some ''der'']]
               @ replicate 10 [None, None, None] @ [[Some ''Kind'', Some ''das'', None]])"


text \<open>
  A quiz over two pairs with a shuffle that reverses the list: the state once the
  first question (Mann) is on screen, and the state after the wrong answer \<open>das\<close>.
\<close>

definition rev_shuffle :: shuffler where
  "rev_shuffle g xs = (rev xs, Suc g)"

definition quiz_pairs :: "pair list" where
  "quiz_pairs = [(''Haus'', ''das''), (''Mann'', ''der'')]"

definition asked :: app where
  "asked =
     \<lparr>pairs = [(''Mann'', ''der''), (''Haus'', ''das'')],
      deck = [(''Mann'', ''der''), (''Haus'', ''das'')],
      idx = 1, waiting_for_next = False, score = 0, seen = 1,
      current = Some (''Mann'', ''der''), score_label = (0, 1, 0), scheduled = 0, rng = 1\<rparr>"

definition awaiting :: app where
  "awaiting = asked\<lparr>waiting_for_next := True\<rparr>"


section \<open>Properties of the loader\<close>

subsection \<open>Which candidates are kept\<close>

lemma strip_Nil: "strip [] = []"
  by (simp add: strip_def)

lemma spec_keep_iff:
  "spec_keep (w, a) \<longleftrightarrow> clean w \<noteq> [] \<and> lower (clean a) \<in> valid_articles"
  by (cases w; cases a) (simp_all add: spec_keep_def clean_def valid_articles_def strip_Nil)

lemma collect_acc: "collect cs acc = acc @ map normalise (filter spec_keep cs)"
proof (induction cs arbitrary: acc)
  case Nil
  show ?case by simp
next
  case (Cons c cs)
  obtain w a where c: "c = (w, a)" by (cases c)
  show ?case
    by (simp add: c Cons.IH spec_keep_iff normalise_def Let_def)
qed

lemma length_collect: "length (collect cs []) \<le> length cs"
  by (simp add: collect_acc)

lemma builders_filter_cells:
  "build_vertical_pairs df =
     (case vertical_cells df of
        None \<Rightarrow> []
      | Some (col_w, col_a) \<Rightarrow> map normalise (filter spec_keep (zip col_w col_a))) \<and>
   build_horizontal_pairs df =
     (case horizontal_cells df of
        None \<Rightarrow> []
      | Some (row_words, row_arts) \<Rightarrow>
          map normalise (filter spec_keep (zip row_words row_arts)))"
  by (simp add: collect_acc build_vertical_pairs_def build_horizontal_pairs_def
           split: option.splits)

lemma dropped_examples:
  "collect [(Some ''Haus'', Some ''den''), (Some ''  '', Some ''der''),
            (Some '' Frau '', Some '' DIE '')] [] = [(''Frau'', ''die'')]"
  by code_simp

text \<open>
  Claim C4 says that a candidate whose word is empty is dropped. On the pandas path the
  code keeps one: the sheet whose only row has A1 empty and B1 = der is read with
  column 0 of dtype \<^verbatim>\<open>float64\<close>, line 36 leaves its NaN in place, \<^verbatim>\<open>_clean\<close>
  turns it into the word \<open>nan\<close>, and the loader returns the pair (nan, der). The
  comment of line 36 says NaN becomes \<^verbatim>\<open>None\<close>, and the fallback wrapper, which
  holds \<^verbatim>\<open>None\<close> for the same cell, drops the candidate.
\<close>

theorem empty_word_kept_as_nan:
  "rf_at nan_frame 0 0 = NaN \<and>
   vertical_cells (Pandas (where_notnull nan_frame)) = Some ([Some ''nan''], [Some ''der'']) \<and>
   load_word_article_pairs (pandas_env nan_frame) ''words.xlsx'' (Str ''auto'') =
     Some (Inr [(''nan'', ''der'')]) \<and>
   build_vertical_pairs (Wrapper [[None, Some ''der'']]) = []"
  by code_simp

subsection \<open>Automatic choice of the layout\<close>

lemma chosen_auto:
  "auto_mode orientation \<Longrightarrow>
   chosen_pairs df orientation =
     (if length (build_horizontal_pairs df) \<le> length (build_vertical_pairs df)
      then build_vertical_pairs df else build_horizontal_pairs df)"
  by (simp add: chosen_pairs_def auto_mode_def Let_def)

lemma load_of_grid:
  "read_grid e p = Some (Inr df) \<Longrightarrow>
   load_word_article_pairs e p orientation = Some (select_pairs df orientation)"
  by (simp add: load_word_article_pairs_def)

text \<open>
  Claim C3. Once a grid has been read and the orientation resolves to automatic
  selection: when the vertical and the horizontal candidate lists are both non-empty
  and equally long the loader returns the vertical list, and when one list is strictly
  longer the loader returns the longer one.
\<close>

theorem auto_prefers_longer_then_vertical:
  assumes "read_grid e xlsx_path = Some (Inr df)"
    and "auto_mode orientation"
    and "v = build_vertical_pairs df" and "h = build_horizontal_pairs df"
  shows "(length v = length h \<and> v \<noteq> [] \<and> h \<noteq> [] \<longrightarrow>
            load_word_article_pairs e xlsx_path orientation = Some (Inr v)) \<and>
         (length h < length v \<longrightarrow>
            load_word_article_pairs e xlsx_path orientation = Some (Inr v)) \<and>
         (length v < length h \<longrightarrow>
            load_word_article_pairs e xlsx_path orientation = Some (Inr h))"
proof -
  have sel: "load_word_article_pairs e xlsx_path orientation =
      Some (select_pairs df orientation)"
    using assms(1) by (rule load_of_grid)
  have ch: "chosen_pairs df orientation = (if length h \<le> length v then v else h)"
    using chosen_auto [OF assms(2)] assms(3,4) by simp
  show ?thesis
    unfolding sel select_pairs_def Let_def ch by auto
qed

theorem auto_prefers_longer_then_vertical_witness:
  "load_word_article_pairs (pandas_env tie_frame) ''words.xlsx'' (Str ''auto'') =
     Some (Inr [(''Haus'', ''das''), (''der'', ''die'')]) \<and>
   build_horizontal_pairs (Pandas (where_notnull tie_frame)) =
     [(''Haus'', ''der''), (''das'', ''die'')] \<and>
   load_word_article_pairs (pandas_env wide_frame) ''words.xlsx'' (Str ''Auto'') =
     Some (Inr [(''das'', ''der''), (''house'', ''der''), (''building'', ''die'')])"
proof -
  have g1: "read_grid (pandas_env tie_frame) ''words.xlsx'' =
      Some (Inr (Pandas (where_notnull tie_frame)))"
    by (simp add: read_grid_def pandas_env_def)
  have g2: "read_grid (pandas_env wide_frame) ''words.xlsx'' =
      Some (Inr (Pandas (where_notnull wide_frame)))"
    by (simp add: read_grid_def pandas_env_def)
  have a1: "auto_mode (Str ''auto'')" by code_simp
  have a2: "auto_mode (Str ''Auto'')" by code_simp
  have v1: "build_vertical_pairs (Pandas (where_notnull tie_frame)) =
      [(''Haus'', ''das''), (''der'', ''die'')]"
    by code_simp
  have h1: "build_horizontal_pairs (Pandas (where_notnull tie_frame)) =
      [(''Haus'', ''der''), (''das'', ''die'')]"
    by code_simp
  have v2: "build_vertical_pairs (Pandas (where_notnull wide_frame)) =
      [(''Haus'', ''das''), (''Mann'', ''der'')]"
    by code_simp
  have h2: "build_horizontal_pairs (Pandas (where_notnull wide_frame)) =
      [(''das'', ''der''), (''house'', ''der''), (''building'', ''die'')]"
    by code_simp
  from auto_prefers_longer_then_vertical [OF g1 a1 v1 [symmetric] h1 [symmetric]]
  have r1: "load_word_article_pairs (pandas_env tie_frame) ''words.xlsx'' (Str ''auto'') =
     Some (Inr [(''Haus'', ''das''), (''der'', ''die'')])" by simp
  from auto_prefers_longer_then_vertical [OF g2 a2 v2 [symmetric] h2 [symmetric]]
  have r2: "load_word_article_pairs (pandas_env wide_frame) ''words.xlsx'' (Str ''Auto'') =
     Some (Inr [(''das'', ''der''), (''house'', ''der''), (''building'', ''die'')])" by simp
  show ?thesis using r1 h1 r2 by simp
qed

subsection \<open>A vertical sheet\<close>

lemma fold_max_ge: "m \<le> fold (\<lambda>rw m. max (length rw) m) rows m"
proof (induction rows arbitrary: m)
  case Nil
  show ?case by simp
next
  case (Cons rw rows)
  have "m \<le> max (length rw) m" by simp
  also have "\<dots> \<le> fold (\<lambda>rw m. max (length rw) m) rows (max (length rw) m)" by (rule Cons.IH)
  finally show ?case by simp
qed

lemma fold_max_mem:
  "rw \<in> set rows \<Longrightarrow> length rw \<le> fold (\<lambda>rw m. max (length rw) m) rows m"
proof (induction rows arbitrary: m)
  case Nil
  then show ?case by simp
next
  case (Cons x rows)
  show ?case
  proof (cases "rw = x")
    case True
    have "length rw \<le> max (length x) m" using True by simp
    also have "\<dots> \<le> fold (\<lambda>rw m. max (length rw) m) rows (max (length x) m)" by (rule fold_max_ge)
    finally show ?thesis by simp
  next
    case False
    with Cons.prems have "rw \<in> set rows" by simp
    then show ?thesis using Cons.IH by simp
  qed
qed

lemma length_le_max_len: "rw \<in> set rows \<Longrightarrow> length rw \<le> max_len rows"
  unfolding max_len_def by (rule fold_max_mem)

lemma vertical_cells_lengths:
  "vertical_cells df = Some (col_w, col_a) \<Longrightarrow> length col_a = length col_w"
  by (cases df) (auto simp: vertical_cells_def iloc_col_def get_col_def split: option.splits if_splits)

lemma horizontal_short:
  assumes "vertical_cells df = Some (col_w, col_a)" and "length col_w < 2"
  shows "build_horizontal_pairs df = []"
  using assms
  by (cases df)
     (auto simp: vertical_cells_def iloc_col_def get_col_def build_horizontal_pairs_def
        horizontal_cells_def shape_def split: option.splits if_splits)

lemma horizontal_le_width: "length (build_horizontal_pairs df) \<le> width df"
proof (cases df)
  case (Pandas d)
  show ?thesis
  proof (cases "horizontal_cells df")
    case None
    then show ?thesis by (simp add: build_horizontal_pairs_def)
  next
    case (Some rc)
    obtain rw ra where rc: "rc = (rw, ra)" by (cases rc)
    have "length rw = df_ncols d"
      using Some Pandas rc
      by (auto simp: horizontal_cells_def iloc_row_def split: if_splits option.splits)
    moreover have "length (collect (zip rw ra) []) \<le> length (zip rw ra)" by (rule length_collect)
    ultimately show ?thesis
      using Some rc Pandas by (simp add: build_horizontal_pairs_def width_def)
  qed
next
  case (Wrapper data)
  show ?thesis
  proof (cases "horizontal_cells df")
    case None
    then show ?thesis by (simp add: build_horizontal_pairs_def)
  next
    case (Some rc)
    obtain rw ra where rc: "rc = (rw, ra)" by (cases rc)
    have len: "2 \<le> length data" and rw: "rw = data ! 0"
      using Some Wrapper rc
      by (auto simp: horizontal_cells_def get_row_def shape_def split: if_splits)
    have "0 < length data" using len by (cases data) simp_all
    then have "rw \<in> set data" unfolding rw by (rule nth_mem)
    then have "length rw \<le> max_len data" by (rule length_le_max_len)
    moreover have "length (collect (zip rw ra) []) \<le> length (zip rw ra)" by (rule length_collect)
    ultimately show ?thesis
      using Some rc Wrapper by (simp add: build_horizontal_pairs_def width_def shape_def)
  qed
qed

text \<open>
  Claim C1, as amended. Once a grid has been read and the orientation resolves to
  automatic selection: when the grid has \<open>N\<close> rows with \<open>N\<close> at least 1, every row
  holds a valid pair in columns 0 and 1, and the grid is at most two columns wide (or,
  more generally, its horizontal reading yields no more than \<open>N\<close> pairs), the loader
  returns exactly \<open>N\<close> pairs, the trimmed and lowercased rows in the sheet's order.
\<close>

theorem vertical_sheet_loads_in_order:
  assumes grid: "read_grid e xlsx_path = Some (Inr df)"
    and auto: "auto_mode orientation"
    and cols: "vertical_cells df = Some (col_w, col_a)"
    and valid: "list_all spec_keep (zip col_w col_a)"
    and rows: "length col_w = N" "0 < N"
    and narrow: "width df \<le> 2 \<or> length (build_horizontal_pairs df) \<le> N"
  shows "load_word_article_pairs e xlsx_path orientation =
           Some (Inr (map normalise (zip col_w col_a))) \<and>
         length (map normalise (zip col_w col_a)) = N"
proof -
  have la: "length col_a = N" using vertical_cells_lengths [OF cols] rows by simp
  have "filter spec_keep (zip col_w col_a) = zip col_w col_a"
    using valid by (simp add: list_all_iff)
  then have v: "build_vertical_pairs df = map normalise (zip col_w col_a)"
    using cols by (simp add: build_vertical_pairs_def collect_acc)
  have lv: "length (build_vertical_pairs df) = N" using v rows la by simp
  have h: "length (build_horizontal_pairs df) \<le> N"
  proof (cases "N < 2")
    case True
    then show ?thesis using horizontal_short [OF cols] rows by simp
  next
    case False
    show ?thesis using narrow
    proof
      assume "width df \<le> 2"
      with horizontal_le_width [of df] False show ?thesis by simp
    qed
  qed
  have "chosen_pairs df orientation = build_vertical_pairs df"
    using chosen_auto [OF auto] h lv by simp
  moreover have "build_vertical_pairs df \<noteq> []" using lv rows by auto
  ultimately have "select_pairs df orientation = Inr (build_vertical_pairs df)"
    by (simp add: select_pairs_def)
  then show ?thesis using load_of_grid [OF grid] v rows la by simp
qed

theorem vertical_sheet_loads_in_order_witness:
  "load_word_article_pairs (pandas_env haus_frame) ''words.xlsx'' (Str ''auto'') =
     Some (Inr [(''Haus'', ''das''), (''Mann'', ''der''), (''Frau'', ''die'')])"
proof -
  let ?w = "[Some ''Haus'', Some ''Mann'', Some ''Frau'']"
  let ?a = "[Some ''das'', Some ''der'', Some ''die'']"
  have g: "read_grid (pandas_env haus_frame) ''words.xlsx'' =
      Some (Inr (Pandas (where_notnull haus_frame)))"
    by (simp add: read_grid_def pandas_env_def)
  have a: "auto_mode (Str ''auto'')" by code_simp
  have c: "vertical_cells (Pandas (where_notnull haus_frame)) = Some (?w, ?a)" by code_simp
  have k: "list_all spec_keep (zip ?w ?a)" by code_simp
  have n: "length ?w = 3" "0 < (3::nat)" by simp_all
  have w: "width (Pandas (where_notnull haus_frame)) \<le> 2 \<or>
      length (build_horizontal_pairs (Pandas (where_notnull haus_frame))) \<le> 3"
    by code_simp
  have m: "map normalise (zip ?w ?a) = [(''Haus'', ''das''), (''Mann'', ''der''), (''Frau'', ''die'')]"
    by code_simp
  from vertical_sheet_loads_in_order [OF g a c k n w] show ?thesis
    unfolding m by simp
qed

text \<open>
  Claim C1 as stated fails on a sheet with further columns: two rows with a valid pair
  in columns 0 and 1 each, and a horizontal reading of three pairs, which automatic
  selection returns instead.
\<close>

theorem wide_vertical_sheet_counterexample:
  "vertical_cells (Pandas (where_notnull wide_frame)) =
     Some ([Some ''Haus'', Some ''Mann''], [Some ''das'', Some ''der'']) \<and>
   list_all spec_keep (zip [Some ''Haus'', Some ''Mann''] [Some ''das'', Some ''der'']) \<and>
   df_nrows (where_notnull wide_frame) = 2 \<and>
   load_word_article_pairs (pandas_env wide_frame) ''words.xlsx'' (Str ''auto'') =
     Some (Inr [(''das'', ''der''), (''house'', ''der''), (''building'', ''die'')])"
  by code_simp

subsection \<open>The fallback scan\<close>

lemma gap_at_iff: "gap_at ws g \<longleftrightarrow> (\<forall>i<10. empty_at ws (g + i))"
  by (auto simp: gap_at_def list_all_iff)

lemma first_gap_iff:
  "first_gap ws g \<longleftrightarrow>
     1 \<le> g \<and> (\<forall>i. 1 \<le> i \<and> i < g \<longrightarrow> readable ws i) \<and> gap_at ws g \<and>
     (\<forall>g'. 1 \<le> g' \<and> g' < g \<longrightarrow> \<not> gap_at ws g')"
  by (auto simp: first_gap_def list_all_iff)

lemma first_raise_iff:
  "first_raise ws x details \<longleftrightarrow>
     1 \<le> x \<and> ws x = Inl details \<and> (\<forall>i. 1 \<le> i \<and> i < x \<longrightarrow> readable ws i) \<and>
     (\<forall>g'. 1 \<le> g' \<and> g' < x \<longrightarrow> \<not> gap_at ws g')"
  by (auto simp: first_raise_def list_all_iff)

lemma readable_Inr: "readable ws r \<Longrightarrow> ws r = Inr (row_values ws r)"
  by (cases "ws r") (simp_all add: readable_def row_values_def)

lemma scan_stop: "\<not> s < 10 \<Longrightarrow> scan_rows ws rows s r = Some (Inr (rows, s, r))"
  by (subst scan_rows.simps) simp

lemma scan_step_raise:
  "s < 10 \<Longrightarrow> ws r = Inl details \<Longrightarrow> scan_rows ws rows s r = Some (Inl details)"
  by (subst scan_rows.simps) simp

lemma scan_step_empty:
  assumes "s < 10" and "empty_at ws r"
  shows "scan_rows ws rows s r = scan_rows ws rows (s + 1) (r + 1)"
proof -
  have w: "ws r = Inr (row_values ws r)" and e: "list_all (\<lambda>v. v = None) (row_values ws r)"
    using assms(2) by (simp_all add: empty_at_def readable_Inr empty_row_def)
  show ?thesis
    by (subst scan_rows.simps, subst w) (simp add: assms(1) e)
qed

lemma scan_step_data:
  assumes "s < 10" and "readable ws r" and "\<not> empty_at ws r"
  shows "scan_rows ws rows s r = scan_rows ws (rows @ [row_values ws r]) 0 (r + 1)"
proof -
  have w: "ws r = Inr (row_values ws r)" using assms(2) by (rule readable_Inr)
  have e: "\<not> list_all (\<lambda>v. v = None) (row_values ws r)"
    using assms(2,3) by (simp add: empty_at_def empty_row_def)
  then have n: "row_values ws r \<noteq> []" by auto
  show ?thesis
    by (subst scan_rows.simps, subst w) (simp add: assms(1) e n)
qed

lemma scan_run_out:
  "k + s = 10 \<Longrightarrow> (\<forall>i<k. empty_at ws (r + i)) \<Longrightarrow>
   scan_rows ws rows s r = Some (Inr (rows, 10, r + k))"
proof (induction k arbitrary: s r)
  case 0
  then show ?case by (simp add: scan_stop)
next
  case (Suc k)
  have s: "s < 10" using Suc.prems(1) by simp
  have e: "empty_at ws r" using Suc.prems(2) by (metis add.right_neutral zero_less_Suc)
  have rest: "\<forall>i<k. empty_at ws (r + 1 + i)"
  proof (intro allI impI)
    fix i assume "i < k"
    then have "Suc i < Suc k" by simp
    with Suc.prems(2) have "empty_at ws (r + Suc i)" by blast
    then show "empty_at ws (r + 1 + i)" by simp
  qed
  have "scan_rows ws rows s r = scan_rows ws rows (s + 1) (r + 1)"
    using s e by (rule scan_step_empty)
  also have "\<dots> = Some (Inr (rows, 10, r + 1 + k))"
    using Suc.prems(1) rest by (intro Suc.IH) simp_all
  finally show ?case by simp
qed

text \<open>
  Reading on from row \<open>r\<close> to row \<open>t\<close>: as long as the rows are readable and no gap
  starts above \<open>t\<close>, the scan arrives at \<open>t\<close> with the non-empty rows between appended
  and a streak below 10 that counts the empty rows just above \<open>t\<close>.
\<close>

lemma scan_advance:
  assumes "r + k = t"
    and "s < 10" and "s < r"
    and "\<forall>i. r - s \<le> i \<and> i < r \<longrightarrow> empty_at ws i"
    and "\<forall>i. r \<le> i \<and> i < t \<longrightarrow> readable ws i"
    and "\<forall>g'. 1 \<le> g' \<and> g' < t \<longrightarrow> \<not> gap_at ws g'"
  shows "\<exists>s'. s' < 10 \<and> s' < t \<and> (\<forall>i. t - s' \<le> i \<and> i < t \<longrightarrow> empty_at ws i) \<and>
           scan_rows ws rows s r =
             scan_rows ws (rows @ filter (\<lambda>row. \<not> empty_row row) (map (row_values ws) [r..<t])) s' t"
  using assms
proof (induction k arbitrary: r s rows)
  case 0
  then have "r = t" by simp
  then show ?case using "0.prems"(2,3,4) by auto
next
  case (Suc k)
  have rt: "r < t" using Suc.prems(1) by simp
  have upt: "[r..<t] = r # [r + 1..<t]" using rt by (simp add: upt_conv_Cons)
  have rd: "readable ws r" using Suc.prems(5) rt by simp
  have rd': "\<forall>i. r + 1 \<le> i \<and> i < t \<longrightarrow> readable ws i" using Suc.prems(5) by simp
  show ?case
  proof (cases "empty_at ws r")
    case True
    have s9: "s + 1 < 10"
    proof (rule ccontr)
      assume "\<not> s + 1 < 10"
      then have s: "s = 9" using Suc.prems(2) by simp
      then have r10: "10 \<le> r" using Suc.prems(3) by simp
      have "\<forall>i<10. empty_at ws (r - 9 + i)"
      proof (intro allI impI)
        fix i :: nat assume "i < 10"
        show "empty_at ws (r - 9 + i)"
        proof (cases "i = 9")
          case True
          then show ?thesis using \<open>empty_at ws r\<close> r10 by simp
        next
          case False
          then have "r - s \<le> r - 9 + i \<and> r - 9 + i < r" using \<open>i < 10\<close> s r10 by arith
          then show ?thesis using Suc.prems(4) by blast
        qed
      qed
      then have "gap_at ws (r - 9)" by (simp add: gap_at_iff)
      moreover have "1 \<le> r - 9" "r - 9 < t" using r10 rt by simp_all
      ultimately show False using Suc.prems(6) by blast
    qed
    have inv: "\<forall>i. r + 1 - (s + 1) \<le> i \<and> i < r + 1 \<longrightarrow> empty_at ws i"
    proof (intro allI impI)
      fix i assume a: "r + 1 - (s + 1) \<le> i \<and> i < r + 1"
      show "empty_at ws i"
      proof (cases "i = r")
        case True
        then show ?thesis using \<open>empty_at ws r\<close> by simp
      next
        case False
        then have "r - s \<le> i \<and> i < r" using a by simp
        then show ?thesis using Suc.prems(4) by blast
      qed
    qed
    have step: "scan_rows ws rows s r = scan_rows ws rows (s + 1) (r + 1)"
      using Suc.prems(2) True by (rule scan_step_empty)
    have er: "empty_row (row_values ws r)" using True by (simp add: empty_at_def)
    have "\<exists>s'. s' < 10 \<and> s' < t \<and> (\<forall>i. t - s' \<le> i \<and> i < t \<longrightarrow> empty_at ws i) \<and>
           scan_rows ws rows (s + 1) (r + 1) =
             scan_rows ws (rows @ filter (\<lambda>row. \<not> empty_row row) (map (row_values ws) [r + 1..<t])) s' t"
    proof (rule Suc.IH)
      show "r + 1 + k = t" using Suc.prems(1) by simp
      show "s + 1 < 10" by (rule s9)
      show "s + 1 < r + 1" using Suc.prems(3) by simp
      show "\<forall>i. r + 1 - (s + 1) \<le> i \<and> i < r + 1 \<longrightarrow> empty_at ws i" by (rule inv)
      show "\<forall>i. r + 1 \<le> i \<and> i < t \<longrightarrow> readable ws i" by (rule rd')
      show "\<forall>g'. 1 \<le> g' \<and> g' < t \<longrightarrow> \<not> gap_at ws g'" by (rule Suc.prems(6))
    qed
    then show ?thesis unfolding step upt using er by simp
  next
    case False
    have step: "scan_rows ws rows s r = scan_rows ws (rows @ [row_values ws r]) 0 (r + 1)"
      using Suc.prems(2) rd False by (rule scan_step_data)
    have ner: "\<not> empty_row (row_values ws r)" using False rd by (simp add: empty_at_def)
    have "\<exists>s'. s' < 10 \<and> s' < t \<and> (\<forall>i. t - s' \<le> i \<and> i < t \<longrightarrow> empty_at ws i) \<and>
           scan_rows ws (rows @ [row_values ws r]) 0 (r + 1) =
             scan_rows ws ((rows @ [row_values ws r]) @
               filter (\<lambda>row. \<not> empty_row row) (map (row_values ws) [r + 1..<t])) s' t"
    proof (rule Suc.IH)
      show "r + 1 + k = t" using Suc.prems(1) by simp
      show "(0::nat) < 10" by simp
      show "0 < r + 1" by simp
      show "\<forall>i. r + 1 - 0 \<le> i \<and> i < r + 1 \<longrightarrow> empty_at ws i" by auto
      show "\<forall>i. r + 1 \<le> i \<and> i < t \<longrightarrow> readable ws i" by (rule rd')
      show "\<forall>g'. 1 \<le> g' \<and> g' < t \<longrightarrow> \<not> gap_at ws g'" by (rule Suc.prems(6))
    qed
    then show ?thesis unfolding step upt using ner by simp
  qed
qed

lemma scan_from_top:
  assumes "1 \<le> t"
    and "\<forall>i. 1 \<le> i \<and> i < t \<longrightarrow> readable ws i"
    and "\<forall>g'. 1 \<le> g' \<and> g' < t \<longrightarrow> \<not> gap_at ws g'"
  shows "\<exists>s'. s' < 10 \<and> s' < t \<and> (\<forall>i. t - s' \<le> i \<and> i < t \<longrightarrow> empty_at ws i) \<and>
           scan_rows ws [] 0 1 = scan_rows ws (compaction ws t) s' t"
proof -
  have "\<exists>s'. s' < 10 \<and> s' < t \<and> (\<forall>i. t - s' \<le> i \<and> i < t \<longrightarrow> empty_at ws i) \<and>
           scan_rows ws [] 0 1 =
             scan_rows ws ([] @ filter (\<lambda>row. \<not> empty_row row) (map (row_values ws) [1..<t])) s' t"
  proof (rule scan_advance [where k = "t - 1"])
    show "1 + (t - 1) = t" using assms(1) by simp
    show "(0::nat) < 10" by simp
    show "(0::nat) < 1" by simp
    show "\<forall>i. 1 - 0 \<le> i \<and> i < 1 \<longrightarrow> empty_at ws i" by auto
    show "\<forall>i. 1 \<le> i \<and> i < t \<longrightarrow> readable ws i" by (rule assms(2))
    show "\<forall>g'. 1 \<le> g' \<and> g' < t \<longrightarrow> \<not> gap_at ws g'" by (rule assms(3))
  qed
  then show ?thesis by (simp add: compaction_def)
qed

lemma scan_first_gap:
  assumes "first_gap ws g"
  shows "scan_rows ws [] 0 1 = Some (Inr (compaction ws g, 10, g + 10))"
proof -
  from assms have g: "1 \<le> g" "\<forall>i. 1 \<le> i \<and> i < g \<longrightarrow> readable ws i" "gap_at ws g"
    "\<forall>g'. 1 \<le> g' \<and> g' < g \<longrightarrow> \<not> gap_at ws g'"
    by (simp_all add: first_gap_iff)
  from scan_from_top [OF g(1,2,4)]
  obtain s' where s': "s' < g" "\<forall>i. g - s' \<le> i \<and> i < g \<longrightarrow> empty_at ws i"
    "scan_rows ws [] 0 1 = scan_rows ws (compaction ws g) s' g"
    by blast
  have full: "\<forall>i<10. empty_at ws (g + i)" using g(3) by (simp add: gap_at_iff)
  have s0: "s' = 0"
  proof (rule ccontr)
    assume "s' \<noteq> 0"
    then have pos: "1 \<le> g - 1" "g - 1 < g" using s'(1) by simp_all
    have before: "empty_at ws (g - 1)" using s'(2) \<open>s' \<noteq> 0\<close> s'(1) by simp
    have "\<forall>i<10. empty_at ws (g - 1 + i)"
    proof (intro allI impI)
      fix i :: nat assume i: "i < 10"
      show "empty_at ws (g - 1 + i)"
      proof (cases i)
        case 0
        then show ?thesis using before by simp
      next
        case (Suc j)
        then have "j < 10" using i by simp
        then have "empty_at ws (g + j)" using full by blast
        moreover have "g - 1 + i = g + j" using Suc pos by simp
        ultimately show ?thesis by simp
      qed
    qed
    then have "gap_at ws (g - 1)" by (simp add: gap_at_iff)
    with g(4) pos show False by blast
  qed
  have "scan_rows ws (compaction ws g) 0 g = Some (Inr (compaction ws g, 10, g + 10))"
    using full by (intro scan_run_out) simp_all
  then show ?thesis using s'(3) s0 by simp
qed

lemma scan_first_raise:
  assumes "first_raise ws x details"
  shows "scan_rows ws [] 0 1 = Some (Inl details)"
proof -
  from assms have x: "1 \<le> x" "ws x = Inl details" "\<forall>i. 1 \<le> i \<and> i < x \<longrightarrow> readable ws i"
    "\<forall>g'. 1 \<le> g' \<and> g' < x \<longrightarrow> \<not> gap_at ws g'"
    by (simp_all add: first_raise_iff)
  from scan_from_top [OF x(1,3,4)]
  obtain s' where s': "s' < 10" "scan_rows ws [] 0 1 = scan_rows ws (compaction ws x) s' x"
    by blast
  show ?thesis unfolding s'(2) using s'(1) x(2) by (rule scan_step_raise)
qed

lemma scan_ends:
  assumes "scan_rows ws rows s r = Some y"
    and "s \<le> 10" and "s < r" and "\<forall>i. r - s \<le> i \<and> i < r \<longrightarrow> empty_at ws i"
  shows "\<exists>n. 1 \<le> n \<and> (gap_at ws n \<or> \<not> readable ws n)"
proof -
  let ?P = "\<lambda>ws (rows :: cell list list) s r (y :: string + cell list list \<times> nat \<times> nat).
     s \<le> 10 \<longrightarrow> s < r \<longrightarrow> (\<forall>i. r - s \<le> i \<and> i < r \<longrightarrow> empty_at ws i) \<longrightarrow>
     (\<exists>n. 1 \<le> n \<and> (gap_at ws n \<or> \<not> readable ws n))"
  have "?P ws rows s r y"
  proof (rule scan_rows.raw_induct [where P = ?P, OF _ assms(1)])
    fix scan and ws :: worksheet and rows :: "cell list list" and s r :: nat
      and y :: "string + cell list list \<times> nat \<times> nat"
    assume IH: "\<And>a b c d y. scan a b c d = Some y \<Longrightarrow> ?P a b c d y"
      and eq: "(if s < 10 then
                 (case ws r of
                    Inl details \<Rightarrow> Some (Inl details)
                  | Inr row_vals \<Rightarrow>
                      if length row_vals = 0 then scan ws rows (s + 1) (r + 1)
                      else if list_all (\<lambda>v. v = None) row_vals then scan ws rows (s + 1) (r + 1)
                      else scan ws (rows @ [row_vals]) 0 (r + 1))
               else Some (Inr (rows, s, r))) = Some y"
    show "?P ws rows s r y"
    proof (intro impI)
      assume s10: "s \<le> 10" and sr: "s < r"
        and inv: "\<forall>i. r - s \<le> i \<and> i < r \<longrightarrow> empty_at ws i"
      show "\<exists>n. 1 \<le> n \<and> (gap_at ws n \<or> \<not> readable ws n)"
      proof (cases "s < 10")
        case False
        then have s: "s = 10" using s10 by simp
        have "\<forall>i<10. empty_at ws (r - 10 + i)"
        proof (intro allI impI)
          fix i :: nat assume "i < 10"
          then have "r - s \<le> r - 10 + i \<and> r - 10 + i < r" using s sr by arith
          then show "empty_at ws (r - 10 + i)" using inv by blast
        qed
        then have "gap_at ws (r - 10)" by (simp add: gap_at_iff)
        moreover have "1 \<le> r - 10" using s sr by simp
        ultimately show ?thesis by blast
      next
        case True
        have r1: "1 \<le> r" using sr by simp
        show ?thesis
        proof (cases "readable ws r")
          case False
          then show ?thesis using r1 by blast
        next
          case rd: True
          have w: "ws r = Inr (row_values ws r)" using rd by (rule readable_Inr)
          show ?thesis
          proof (cases "empty_at ws r")
            case e: True
            have el: "list_all (\<lambda>v. v = None) (row_values ws r)"
              using e by (simp add: empty_at_def empty_row_def)
            have call: "scan ws rows (s + 1) (r + 1) = Some y"
              using True el eq unfolding w
              by (cases "row_values ws r = []") simp_all
            have inv': "\<forall>i. r + 1 - (s + 1) \<le> i \<and> i < r + 1 \<longrightarrow> empty_at ws i"
            proof (intro allI impI)
              fix i assume a: "r + 1 - (s + 1) \<le> i \<and> i < r + 1"
              show "empty_at ws i"
              proof (cases "i = r")
                case True
                then show ?thesis using e by simp
              next
                case False
                then have "r - s \<le> i \<and> i < r" using a by simp
                then show ?thesis using inv by blast
              qed
            qed
            have b1: "s + 1 \<le> 10" and b2: "s + 1 < r + 1" using True sr by simp_all
            from IH [OF call] b1
            have "s + 1 < r + 1 \<longrightarrow>
                  (\<forall>i. r + 1 - (s + 1) \<le> i \<and> i < r + 1 \<longrightarrow> empty_at ws i) \<longrightarrow>
                  (\<exists>n. 1 \<le> n \<and> (gap_at ws n \<or> \<not> readable ws n))" by (rule mp)
            from this b2
            have "(\<forall>i. r + 1 - (s + 1) \<le> i \<and> i < r + 1 \<longrightarrow> empty_at ws i) \<longrightarrow>
                  (\<exists>n. 1 \<le> n \<and> (gap_at ws n \<or> \<not> readable ws n))" by (rule mp)
            from this inv' show ?thesis by (rule mp)
          next
            case ne: False
            have nl: "\<not> list_all (\<lambda>v. v = None) (row_values ws r)"
              using ne rd by (simp add: empty_at_def empty_row_def)
            then have nn: "row_values ws r \<noteq> []" by auto
            have call: "scan ws (rows @ [row_values ws r]) 0 (r + 1) = Some y"
              using True nl nn eq unfolding w by simp
            have b0: "\<forall>i. r + 1 - 0 \<le> i \<and> i < r + 1 \<longrightarrow> empty_at ws i" by auto
            have b1: "(0::nat) \<le> 10" and b2: "0 < r + 1" by simp_all
            from IH [OF call] b1
            have "0 < r + 1 \<longrightarrow>
                  (\<forall>i. r + 1 - 0 \<le> i \<and> i < r + 1 \<longrightarrow> empty_at ws i) \<longrightarrow>
                  (\<exists>n. 1 \<le> n \<and> (gap_at ws n \<or> \<not> readable ws n))" by (rule mp)
            from this b2
            have "(\<forall>i. r + 1 - 0 \<le> i \<and> i < r + 1 \<longrightarrow> empty_at ws i) \<longrightarrow>
                  (\<exists>n. 1 \<le> n \<and> (gap_at ws n \<or> \<not> readable ws n))" by (rule mp)
            from this b0 show ?thesis by (rule mp)
          qed
        qed
      qed
    qed
  qed
  then show ?thesis using assms(2-4) by blast
qed

lemma scan_ends_how:
  assumes "scan_rows ws [] 0 1 = Some y"
  shows "(\<exists>g. first_gap ws g) \<or> (\<exists>x details. first_raise ws x details)"
proof -
  have "\<forall>i. 1 - 0 \<le> i \<and> i < (1::nat) \<longrightarrow> empty_at ws i" by auto
  then have "\<exists>n. 1 \<le> n \<and> (gap_at ws n \<or> \<not> readable ws n)"
    using scan_ends [OF assms] by simp
  then have "\<exists>n. (1 \<le> n \<and> (gap_at ws n \<or> \<not> readable ws n)) \<and>
                 (\<forall>m<n. \<not> (1 \<le> m \<and> (gap_at ws m \<or> \<not> readable ws m)))"
    by (simp only: exists_least_iff [symmetric])
  then obtain n where n: "1 \<le> n" "gap_at ws n \<or> \<not> readable ws n"
    and least: "\<forall>m<n. \<not> (1 \<le> m \<and> (gap_at ws m \<or> \<not> readable ws m))"
    by blast
  have above: "\<forall>i. 1 \<le> i \<and> i < n \<longrightarrow> readable ws i" using least by blast
  have nogap: "\<forall>g'. 1 \<le> g' \<and> g' < n \<longrightarrow> \<not> gap_at ws g'" using least by blast
  show ?thesis
  proof (cases "readable ws n")
    case True
    then have "gap_at ws n" using n(2) by simp
    then have "first_gap ws n" using n(1) above nogap by (simp add: first_gap_iff)
    then show ?thesis by blast
  next
    case False
    then obtain details where "ws n = Inl details"
      by (cases "ws n") (simp_all add: readable_def)
    then have "first_raise ws n details" using n(1) above nogap by (simp add: first_raise_iff)
    then show ?thesis by blast
  qed
qed

lemma scan_returns:
  assumes "scan_rows ws [] 0 1 = Some (Inr y)"
  shows "\<exists>g. first_gap ws g \<and> y = (compaction ws g, 10, g + 10)"
proof -
  from scan_ends_how [OF assms] show ?thesis
  proof
    assume "\<exists>g. first_gap ws g"
    then obtain g where g: "first_gap ws g" by blast
    then have "scan_rows ws [] 0 1 = Some (Inr (compaction ws g, 10, g + 10))"
      by (rule scan_first_gap)
    then show ?thesis using assms g by auto
  next
    assume "\<exists>x details. first_raise ws x details"
    then obtain x details where "first_raise ws x details" by blast
    then have "scan_rows ws [] 0 1 = Some (Inl details)" by (rule scan_first_raise)
    then show ?thesis using assms by simp
  qed
qed

lemma scan_raises:
  assumes "scan_rows ws [] 0 1 = Some (Inl details)"
  shows "\<exists>x. first_raise ws x details"
proof -
  from scan_ends_how [OF assms] show ?thesis
  proof
    assume "\<exists>g. first_gap ws g"
    then obtain g where "first_gap ws g" by blast
    then have "scan_rows ws [] 0 1 = Some (Inr (compaction ws g, 10, g + 10))"
      by (rule scan_first_gap)
    then show ?thesis using assms by simp
  next
    assume "\<exists>x d. first_raise ws x d"
    then obtain x d where x: "first_raise ws x d" by blast
    then have "scan_rows ws [] 0 1 = Some (Inl d)" by (rule scan_first_raise)
    then have "d = details" using assms by simp
    then show ?thesis using x by blast
  qed
qed





subsection \<open>The ways the loader fails\<close>

lemma scan_raises_iff:
  "scan_rows ws [] 0 1 = Some (Inl details) \<longleftrightarrow> (\<exists>x. first_raise ws x details)"
  using scan_raises scan_first_raise by blast

lemma read_grid_error:
  "read_grid e xlsx_path = Some (Inl err) \<longleftrightarrow>
     (\<not> path_exists e xlsx_path \<and>
        err = FileNotFoundError (''Excel file not found: '' @ xlsx_path)) \<or>
     (path_exists e xlsx_path \<and> pandas_read e xlsx_path = None \<and>
        (\<exists>details.
           (openpyxl_load e xlsx_path = Inl details \<or>
            (\<exists>ws x. openpyxl_load e xlsx_path = Inr ws \<and> first_raise ws x details)) \<and>
           err = RuntimeError
             (''Failed to read Excel with pandas or openpyxl. Details: '' @ details)))"
proof (cases "path_exists e xlsx_path")
  case False
  then show ?thesis by (auto simp: read_grid_def)
next
  case ex: True
  show ?thesis
  proof (cases "pandas_read e xlsx_path")
    case (Some raw)
    then show ?thesis using ex by (simp add: read_grid_def)
  next
    case None
    show ?thesis
    proof (cases "openpyxl_load e xlsx_path")
      case (Inl details)
      then show ?thesis using ex None by (auto simp: read_grid_def)
    next
      case (Inr ws)
      show ?thesis
      proof (cases "scan_rows ws [] 0 1")
        case n: None
        then have "\<not> (\<exists>x. first_raise ws x details)" for details
          using scan_raises_iff [of ws details] by simp
        then show ?thesis using ex None Inr n by (simp add: read_grid_def)
      next
        case (Some res)
        show ?thesis
        proof (cases res)
          case (Inl d)
          then have "(\<exists>x. first_raise ws x details) \<longleftrightarrow> details = d" for details
            using Some scan_raises_iff [of ws details] by auto
          then show ?thesis using ex None Inr Some Inl by (auto simp: read_grid_def)
        next
          case r: (Inr st)
          then have "\<not> (\<exists>x. first_raise ws x details)" for details
            using Some scan_raises_iff [of ws details] by simp
          then show ?thesis using ex None Inr Some r
            by (simp add: read_grid_def split: prod.splits)
        qed
      qed
    qed
  qed
qed

text \<open>
  Claim C2 as stated fails: a file that exists and that neither pandas nor openpyxl can
  read makes the loader raise \<^verbatim>\<open>RuntimeError\<close> (line 81), a third kind of
  failure.
\<close>

theorem runtime_error_counterexample:
  "path_exists unreadable_env ''words.xlsx'' \<and>
   load_word_article_pairs unreadable_env ''words.xlsx'' (Str ''auto'') =
     Some (Inl (RuntimeError
       ''Failed to read Excel with pandas or openpyxl. Details: File is not a zip file''))"
  by (simp add: unreadable_env_def load_word_article_pairs_def read_grid_def)

text \<open>
  Claim C2, as amended. The loader raises exactly in three cases:
  \<^verbatim>\<open>FileNotFoundError\<close>, its message ending in the path, when the path does not
  exist; \<^verbatim>\<open>RuntimeError\<close> when the path exists, pandas fails and the openpyxl
  fallback fails as well, on import or opening or because a row access raises before
  the scan has read ten consecutive fully-empty rows; \<^verbatim>\<open>ValueError\<close> (the
  specification's \<open>NoValidPairsError\<close>) when a grid was read and the list chosen under
  the resolved orientation is empty.
\<close>

theorem loader_failure_modes:
  "load_word_article_pairs e xlsx_path orientation = Some (Inl err) \<longleftrightarrow>
     (\<not> path_exists e xlsx_path \<and>
        err = FileNotFoundError (''Excel file not found: '' @ xlsx_path)) \<or>
     (path_exists e xlsx_path \<and> pandas_read e xlsx_path = None \<and>
        (\<exists>details.
           (openpyxl_load e xlsx_path = Inl details \<or>
            (\<exists>ws x. openpyxl_load e xlsx_path = Inr ws \<and> first_raise ws x details)) \<and>
           err = RuntimeError
             (''Failed to read Excel with pandas or openpyxl. Details: '' @ details))) \<or>
     (\<exists>df. read_grid e xlsx_path = Some (Inr df) \<and> chosen_pairs df orientation = [] \<and>
        err = ValueError ''No valid (word, article) pairs found.'')"
proof (cases "read_grid e xlsx_path")
  case None
  then have "\<not> read_grid e xlsx_path = Some (Inl err)" by simp
  then show ?thesis
    using None unfolding read_grid_error by (simp add: load_word_article_pairs_def)
next
  case (Some res)
  show ?thesis
  proof (cases res)
    case (Inl err')
    have "load_word_article_pairs e xlsx_path orientation = Some (Inl err) \<longleftrightarrow>
          read_grid e xlsx_path = Some (Inl err)"
      using Some Inl by (simp add: load_word_article_pairs_def)
    then show ?thesis using Some Inl unfolding read_grid_error by simp
  next
    case (Inr df)
    have "\<not> read_grid e xlsx_path = Some (Inl err)" using Some Inr by simp
    then show ?thesis
      using Some Inr unfolding read_grid_error
      by (auto simp: load_word_article_pairs_def select_pairs_def Let_def)
  qed
qed

theorem loader_failure_modes_witness:
  "load_word_article_pairs missing_env ''words.xlsx'' (Str ''auto'') =
     Some (Inl (FileNotFoundError ''Excel file not found: words.xlsx'')) \<and>
   load_word_article_pairs (fallback_env short_sheet) ''words.xlsx'' (Str ''auto'') =
     Some (Inl (RuntimeError
       ''Failed to read Excel with pandas or openpyxl. Details: tuple index out of range'')) \<and>
   load_word_article_pairs (pandas_env den_frame) ''words.xlsx'' (Str ''auto'') =
     Some (Inl (ValueError ''No valid (word, article) pairs found.''))"
proof -
  have m: "\<not> path_exists missing_env ''words.xlsx''" by (simp add: missing_env_def)
  have f: "path_exists (fallback_env short_sheet) ''words.xlsx''"
    "pandas_read (fallback_env short_sheet) ''words.xlsx'' = None"
    "openpyxl_load (fallback_env short_sheet) ''words.xlsx'' = Inr short_sheet"
    by (simp_all add: fallback_env_def)
  have fr: "first_raise short_sheet 3 ''tuple index out of range''" by code_simp
  have g: "read_grid (pandas_env den_frame) ''words.xlsx'' =
      Some (Inr (Pandas (where_notnull den_frame)))"
    by (simp add: read_grid_def pandas_env_def)
  have c: "chosen_pairs (Pandas (where_notnull den_frame)) (Str ''auto'') = []" by code_simp
  have p: "path_exists (pandas_env den_frame) ''words.xlsx''" by (simp add: pandas_env_def)
  have r1: "load_word_article_pairs missing_env ''words.xlsx'' (Str ''auto'') =
     Some (Inl (FileNotFoundError ''Excel file not found: words.xlsx''))"
    using m loader_failure_modes [of missing_env "''words.xlsx''" "Str ''auto''"
        "FileNotFoundError ''Excel file not found: words.xlsx''"]
    by simp
  have r2: "load_word_article_pairs (fallback_env short_sheet) ''words.xlsx'' (Str ''auto'') =
     Some (Inl (RuntimeError
       ''Failed to read Excel with pandas or openpyxl. Details: tuple index out of range''))"
    using f fr loader_failure_modes [of "fallback_env short_sheet" "''words.xlsx''" "Str ''auto''"
        "RuntimeError
          ''Failed to read Excel with pandas or openpyxl. Details: tuple index out of range''"]
    by auto
  have r3: "load_word_article_pairs (pandas_env den_frame) ''words.xlsx'' (Str ''auto'') =
     Some (Inl (ValueError ''No valid (word, article) pairs found.''))"
    using g c p loader_failure_modes [of "pandas_env den_frame" "''words.xlsx''" "Str ''auto''"
        "ValueError ''No valid (word, article) pairs found.''"]
    by simp
  show ?thesis using r1 r2 r3 by simp
qed

subsection \<open>The grid of the fallback reader\<close>

lemma pad_rows_eq:
  "pad_rows rows = map (\<lambda>rw. rw @ replicate (max_len rows - length rw) None) rows"
  by (simp add: pad_rows_def Let_def)

lemma not_keep_None_left: "\<not> spec_keep (None, a)"
  by (simp add: spec_keep_def strip_Nil)

lemma not_keep_None_right: "\<not> spec_keep (w, None)"
  by (simp add: spec_keep_def strip_Nil lower_def)

lemma filter_keep_left_None: "filter spec_keep (zip (replicate i None) zs) = []"
proof -
  have "\<not> spec_keep p" if "p \<in> set (zip (replicate i None) zs)" for p
  proof -
    obtain w a where p: "p = (w, a)" by (cases p)
    from that p have "w \<in> set (replicate i None)" by (auto dest: set_zip_leftD)
    then have "w = None" by simp
    then show ?thesis using p by (simp add: not_keep_None_left)
  qed
  then show ?thesis by (simp add: filter_empty_conv)
qed

lemma filter_keep_right_None: "filter spec_keep (zip zs (replicate j None)) = []"
proof -
  have "\<not> spec_keep p" if "p \<in> set (zip zs (replicate j None))" for p
  proof -
    obtain w a where p: "p = (w, a)" by (cases p)
    from that p have "a \<in> set (replicate j None)" by (auto dest: set_zip_rightD)
    then have "a = None" by simp
    then show ?thesis using p by (simp add: not_keep_None_right)
  qed
  then show ?thesis by (simp add: filter_empty_conv)
qed

lemma filter_keep_padded:
  "filter spec_keep (zip (xs @ replicate i None) (ys @ replicate j None)) =
   filter spec_keep (zip xs ys)"
proof (induction xs arbitrary: ys)
  case Nil
  show ?case by (simp add: filter_keep_left_None)
next
  case (Cons x xs)
  show ?case
  proof (cases ys)
    case Nil
    have "filter spec_keep (zip ((x # xs) @ replicate i None) (replicate j None)) = []"
      by (rule filter_keep_right_None)
    then show ?thesis using Nil by simp
  next
    case (Cons y ys')
    then show ?thesis using Cons.IH by simp
  qed
qed

lemma horizontal_of_padded:
  "build_horizontal_pairs (Wrapper (pad_rows (r0 # r1 # rest))) =
     map normalise (filter spec_keep (zip r0 r1))"
proof -
  let ?m = "max_len (r0 # r1 # rest)"
  have cells: "horizontal_cells (Wrapper (pad_rows (r0 # r1 # rest))) =
      Some (r0 @ replicate (?m - length r0) None, r1 @ replicate (?m - length r1) None)"
    by (simp add: horizontal_cells_def shape_def get_row_def pad_rows_eq)
  show ?thesis
    by (simp add: build_horizontal_pairs_def cells collect_acc filter_keep_padded)
qed


text \<open>
  Claim C10. When pandas fails and the workbook opens, every grid the fallback reader
  hands on is the compaction of the rows above the sheet's first gap, every fully-empty
  row among them left out whether it lies between data rows or not, padded to a
  rectangle; and the reader hands on that grid whenever the sheet has a first gap. So
  when the compaction has at least two rows, the horizontal interpretation pairs the
  first two non-empty rows of the sheet, whatever blank rows lie between them, and the
  padding adds no pair.
\<close>

theorem fallback_grid_is_compaction:
  assumes "path_exists e xlsx_path" and "pandas_read e xlsx_path = None"
    and "openpyxl_load e xlsx_path = Inr ws"
  shows "(first_gap ws g \<longrightarrow>
            read_grid e xlsx_path = Some (Inr (Wrapper (pad_rows (compaction ws g))))) \<and>
         (\<forall>df. read_grid e xlsx_path = Some (Inr df) \<longrightarrow>
            (\<exists>g. first_gap ws g \<and> df = Wrapper (pad_rows (compaction ws g)))) \<and>
         (\<forall>r0 r1 rest. compaction ws g = r0 # r1 # rest \<longrightarrow>
            build_horizontal_pairs (Wrapper (pad_rows (compaction ws g))) =
              map normalise (filter spec_keep (zip r0 r1)))"
proof (intro conjI impI allI)
  assume "first_gap ws g"
  then have "scan_rows ws [] 0 1 = Some (Inr (compaction ws g, 10, g + 10))"
    by (rule scan_first_gap)
  then show "read_grid e xlsx_path = Some (Inr (Wrapper (pad_rows (compaction ws g))))"
    using assms by (simp add: read_grid_def)
next
  fix df assume grid: "read_grid e xlsx_path = Some (Inr df)"
  show "\<exists>g. first_gap ws g \<and> df = Wrapper (pad_rows (compaction ws g))"
  proof (cases "scan_rows ws [] 0 1")
    case None
    then show ?thesis using grid assms by (simp add: read_grid_def)
  next
    case (Some res)
    show ?thesis
    proof (cases res)
      case (Inl details)
      then show ?thesis using grid assms Some by (simp add: read_grid_def)
    next
      case (Inr st)
      with Some have "scan_rows ws [] 0 1 = Some (Inr st)" by simp
      from scan_returns [OF this]
      obtain g' where g': "first_gap ws g'" "st = (compaction ws g', 10, g' + 10)" by blast
      have "df = Wrapper (pad_rows (compaction ws g'))"
        using grid assms Some Inr g'(2) by (simp add: read_grid_def)
      with g'(1) show ?thesis by blast
    qed
  qed
next
  fix r0 r1 rest assume "compaction ws g = r0 # r1 # rest"
  then show "build_horizontal_pairs (Wrapper (pad_rows (compaction ws g))) =
      map normalise (filter spec_keep (zip r0 r1))"
    by (simp add: horizontal_of_padded)
qed

theorem fallback_grid_is_compaction_witness:
  "spaced_sheet 2 = Inr [None, None, None] \<and> spaced_sheet 3 = Inr [] \<and>
   spaced_sheet 16 = Inl ''tuple index out of range'' \<and>
   first_gap spaced_sheet 5 \<and>
   compaction spaced_sheet 5 =
     [[Some ''Haus'', Some ''Mann'', Some ''Frau''], [Some ''das'', Some ''der'']] \<and>
   read_grid (fallback_env spaced_sheet) ''words.xlsx'' =
     Some (Inr (Wrapper [[Some ''Haus'', Some ''Mann'', Some ''Frau''],
                         [Some ''das'', Some ''der'', None]])) \<and>
   build_horizontal_pairs (Wrapper [[Some ''Haus'', Some ''Mann'', Some ''Frau''],
                                    [Some ''das'', Some ''der'', None]]) =
     [(''Haus'', ''das''), (''Mann'', ''der'')]"
proof -
  let ?r0 = "[Some ''Haus'', Some ''Mann'', Some ''Frau'']"
  let ?r1 = "[Some ''das'', Some ''der'']"
  have e: "path_exists (fallback_env spaced_sheet) ''words.xlsx''"
    "pandas_read (fallback_env spaced_sheet) ''words.xlsx'' = None"
    "openpyxl_load (fallback_env spaced_sheet) ''words.xlsx'' = Inr spaced_sheet"
    by (simp_all add: fallback_env_def)
  have b: "spaced_sheet 2 = Inr [None, None, None]" "spaced_sheet 3 = Inr []"
    "spaced_sheet 16 = Inl ''tuple index out of range''"
    by code_simp+
  have fg: "first_gap spaced_sheet 5" by code_simp
  have c: "compaction spaced_sheet 5 = [?r0, ?r1]" by code_simp
  have p: "pad_rows [?r0, ?r1] = [?r0, [Some ''das'', Some ''der'', None]]" by code_simp
  have k: "map normalise (filter spec_keep (zip ?r0 ?r1)) = [(''Haus'', ''das''), (''Mann'', ''der'')]"
    by code_simp
  note inst = fallback_grid_is_compaction [OF e, of 5, unfolded c p]
  from inst fg have g: "read_grid (fallback_env spaced_sheet) ''words.xlsx'' =
      Some (Inr (Wrapper [?r0, [Some ''das'', Some ''der'', None]]))" by blast
  from inst have h: "build_horizontal_pairs (Wrapper [?r0, [Some ''das'', Some ''der'', None]]) =
      map normalise (filter spec_keep (zip ?r0 ?r1))" by blast
  show ?thesis using b fg c g h [unfolded k] by simp
qed

section \<open>Properties of the quiz controller\<close>

subsection \<open>The score label\<close>

lemma is_shuffle_rev: "is_shuffle rev_shuffle"
  by (simp add: is_shuffle_def rev_shuffle_def)

lemma state_of_simps [simp]: "state_of (Inr st) = st" "state_of (Inl (e, st)) = st"
  by (simp_all add: state_of_def)

lemma fresh_update [simp]: "label_fresh (update_score_label st)"
  by (simp add: label_fresh_def update_score_label_def Let_def)

lemma score_seen_update [simp]:
  "score (update_score_label st) = score st" "seen (update_score_label st) = seen st"
  by (simp_all add: update_score_label_def Let_def)

lemma fresh_next_question: "label_fresh st \<Longrightarrow> label_fresh (state_of (next_question sh st))"
  by (auto simp: next_question_def state_of_def Let_def label_fresh_def update_score_label_def
      split: prod.splits)

lemma fresh_start_quiz: "label_fresh (state_of (start_quiz sh st))"
proof -
  obtain ps g where sh: "sh (rng st) (pairs st) = (ps, g)" by (cases "sh (rng st) (pairs st)")
  show ?thesis
    unfolding start_quiz_def sh prod.case
    by (rule fresh_next_question) simp
qed

lemma fresh_submit: "label_fresh st \<Longrightarrow> label_fresh (state_of (submit guess st))"
  by (auto simp: submit_def state_of_def label_fresh_def update_score_label_def Let_def
      split: option.splits)

lemma fresh_on_key:
  assumes "label_fresh st"
  shows "label_fresh (state_of (on_key sh key st))"
proof (cases "waiting_for_next st")
  case True
  then show ?thesis using assms by (simp add: on_key_def fresh_next_question)
next
  case False
  show ?thesis
  proof (cases "key_to_article key")
    case None
    then show ?thesis using False assms by (simp add: on_key_def)
  next
    case (Some article)
    then show ?thesis using False assms by (simp add: on_key_def fresh_submit)
  qed
qed

lemma fresh_fire: "label_fresh st \<Longrightarrow> label_fresh (state_of (fire_scheduled sh st))"
proof (cases "scheduled st = 0")
  case True
  assume "label_fresh st"
  then show ?thesis using True by (simp add: fire_scheduled_def)
next
  case False
  assume "label_fresh st"
  then have "label_fresh (st\<lparr>scheduled := scheduled st - 1\<rparr>)" by (simp add: label_fresh_def)
  then show ?thesis using False by (simp add: fire_scheduled_def fresh_next_question)
qed

lemma fresh_handle: "label_fresh st \<Longrightarrow> label_fresh (state_of (handle sh ev st))"
  by (cases ev)
     (simp_all add: handle_def fresh_start_quiz fresh_next_question fresh_submit fresh_on_key
        fresh_fire)

lemma fresh_run: "label_fresh st \<Longrightarrow> label_fresh (run sh evs st)"
  by (induction evs arbitrary: st) (simp_all add: fresh_handle)

lemma fresh_new: "label_fresh (new_app ps g)"
  by (simp add: label_fresh_def new_app_def)

text \<open>
  Claim C9. In every state the quiz reaches from its initial state, whatever the
  events, the label shows the current score and seen counters and an accuracy that is 0
  when \<open>seen\<close> is 0 and otherwise \<open>score * 100 / seen\<close> rounded to an integer the
  way Python's \<^verbatim>\<open>round\<close> does (to the nearest, a tie to the even one).
\<close>

theorem accuracy_label:
  "score_label (run sh evs (new_app ps g)) =
     (score (run sh evs (new_app ps g)), seen (run sh evs (new_app ps g)),
      if seen (run sh evs (new_app ps g)) = 0 then 0
      else py_round (of_int (score (run sh evs (new_app ps g)) * 100) /
                     of_int (seen (run sh evs (new_app ps g)))))"
  using fresh_run [OF fresh_new, of sh evs ps g] by (simp add: label_fresh_def)

lemma py_round_nearest: "\<bar>of_int (py_round x) - x\<bar> \<le> 1 / 2"
proof -
  have "of_int \<lfloor>x\<rfloor> \<le> x" "x < of_int \<lfloor>x\<rfloor> + 1" by linarith+
  then show ?thesis by (auto simp: py_round_def Let_def)
qed

theorem accuracy_label_witness:
  "score_label (run rev_shuffle [Start, Answer ''der'', Timer, Next, Next, Next, Next, Next, Next]
      (new_app quiz_pairs 0)) = (1, 8, 12)"
proof -
  let ?st = "run rev_shuffle [Start, Answer ''der'', Timer, Next, Next, Next, Next, Next, Next]
      (new_app quiz_pairs 0)"
  have v: "score ?st = 1" "seen ?st = 8" by code_simp+
  have r: "py_round (of_int (1 * 100) / of_int 8) = 12" by code_simp
  show ?thesis
    using accuracy_label [of rev_shuffle
        "[Start, Answer ''der'', Timer, Next, Next, Next, Next, Next, Next]" quiz_pairs 0]
    unfolding v using r by simp
qed

subsection \<open>Drawing questions\<close>

lemma shuffle_length: "is_shuffle sh \<Longrightarrow> sh g xs = (ps, g') \<Longrightarrow> length ps = length xs"
proof -
  assume a: "is_shuffle sh" "sh g xs = (ps, g')"
  then have "mset ps = mset xs" by (metis fst_conv is_shuffle_def)
  then show ?thesis by (rule mset_eq_length)
qed

lemma shuffle_mset: "is_shuffle sh \<Longrightarrow> sh g xs = (ps, g') \<Longrightarrow> mset ps = mset xs"
  by (metis fst_conv is_shuffle_def)

lemma clear_waiting:
  "(if waiting_for_next st then st\<lparr>waiting_for_next := False\<rparr> else st) =
   st\<lparr>waiting_for_next := False\<rparr>"
  by simp

lemma next_question_reshuffle:
  assumes sh: "is_shuffle sh" and ne: "pairs st \<noteq> []"
    and full: "length (deck st) \<le> idx st"
    and res: "sh (rng st) (pairs st) = (ps, g)"
  shows "next_question sh st =
     Inr (update_score_label
       (st\<lparr>waiting_for_next := False, pairs := ps, deck := ps, rng := g,
            current := Some (ps ! 0), idx := 1, seen := seen st + 1\<rparr>))"
proof -
  have "length ps = length (pairs st)" using sh res by (rule shuffle_length)
  then have "0 < length ps" using ne by simp
  then show ?thesis using full res
    unfolding next_question_def clear_waiting by (simp add: Let_def)
qed

lemma next_question_advance:
  assumes "idx st < length (deck st)"
  shows "next_question sh st =
     Inr (update_score_label
       (st\<lparr>waiting_for_next := False, current := Some (deck st ! idx st),
            idx := idx st + 1, seen := seen st + 1\<rparr>))"
  using assms unfolding next_question_def clear_waiting by (simp add: Let_def)

lemma next_question_ok:
  assumes sh: "is_shuffle sh" and ne: "pairs st \<noteq> []"
  shows "\<exists>st'. next_question sh st = Inr st' \<and>
           seen st' = seen st + 1 \<and> score st' = score st \<and> \<not> waiting_for_next st' \<and>
           scheduled st' = scheduled st \<and>
           mset (pairs st') = mset (pairs st) \<and>
           (if length (deck st) \<le> idx st
            then deck st' = fst (sh (rng st) (pairs st)) \<and> idx st' = 1
            else deck st' = deck st \<and> idx st' = idx st + 1) \<and>
           idx st' \<le> length (deck st') \<and>
           current st' = Some (deck st' ! (idx st' - 1))"
proof (cases "length (deck st) \<le> idx st")
  case True
  obtain ps g where res: "sh (rng st) (pairs st) = (ps, g)" by (cases "sh (rng st) (pairs st)")
  have len: "length ps = length (pairs st)" using sh res by (rule shuffle_length)
  have ms: "mset ps = mset (pairs st)" using sh res by (rule shuffle_mset)
  have "Suc 0 \<le> length ps" using ne len by (cases ps) simp_all
  then show ?thesis
    using True ms
    by (simp add: next_question_reshuffle [OF sh ne True res] res update_score_label_def Let_def)
next
  case False
  then have "idx st < length (deck st)" by simp
  then show ?thesis
    by (simp add: next_question_advance update_score_label_def Let_def)
qed

lemma mod_step:
  assumes "0 < (n::nat)"
  shows "(if n \<le> j mod n + 1 then 1 else j mod n + 1 + 1) = (j + 1) mod n + 1"
proof (cases "n \<le> j mod n + 1")
  case True
  have "j mod n < n" using assms by simp
  with True have "Suc (j mod n) = n" by simp
  then have "Suc j mod n = 0" by (simp add: mod_Suc)
  then show ?thesis using True by simp
next
  case False
  then have "Suc (j mod n) \<noteq> n" by simp
  then have "Suc j mod n = Suc (j mod n)" by (simp add: mod_Suc)
  then show ?thesis using False by simp
qed

lemma draw_many_cycles:
  assumes sh: "is_shuffle sh"
    and "pairs st \<noteq> []"
    and "length (deck st) = length (pairs st)"
    and "mset (deck st) = mset (pairs st)"
    and "idx st = j mod length (pairs st) + 1"
  shows "\<exists>st'. draw_many sh k st = Inr st' \<and>
           length (deck st') = length (pairs st) \<and>
           mset (deck st') = mset (pairs st) \<and>
           mset (pairs st') = mset (pairs st) \<and>
           idx st' = (j + k) mod length (pairs st) + 1"
  using assms(2-)
proof (induction k arbitrary: st j)
  case 0
  then show ?case by simp
next
  case (Suc k)
  let ?n = "length (pairs st)"
  have npos: "0 < ?n" using Suc.prems(1) by simp
  from next_question_ok [OF sh Suc.prems(1)]
  obtain st1 where nq: "next_question sh st = Inr st1"
    and ms1: "mset (pairs st1) = mset (pairs st)"
    and step: "if length (deck st) \<le> idx st
               then deck st1 = fst (sh (rng st) (pairs st)) \<and> idx st1 = 1
               else deck st1 = deck st \<and> idx st1 = idx st + 1"
    by blast
  have len1: "length (pairs st1) = ?n" using ms1 by (rule mset_eq_length)
  have ne1: "pairs st1 \<noteq> []" using len1 npos by auto
  have msd: "mset (deck st1) = mset (pairs st)"
  proof (cases "length (deck st) \<le> idx st")
    case True
    then have "deck st1 = fst (sh (rng st) (pairs st))" using step by simp
    then show ?thesis using sh by (simp add: is_shuffle_def)
  next
    case False
    then show ?thesis using step Suc.prems(3) by simp
  qed
  have lend: "length (deck st1) = ?n" using msd by (rule mset_eq_length)
  have "idx st1 = (if ?n \<le> j mod ?n + 1 then 1 else j mod ?n + 1 + 1)"
    using step Suc.prems(2,4) by (simp split: if_splits)
  then have idx1: "idx st1 = (j + 1) mod ?n + 1" using mod_step [OF npos] by simp
  have "\<exists>st'. draw_many sh k st1 = Inr st' \<and>
           length (deck st') = length (pairs st1) \<and>
           mset (deck st') = mset (pairs st1) \<and>
           mset (pairs st') = mset (pairs st1) \<and>
           idx st' = (j + 1 + k) mod length (pairs st1) + 1"
  proof (rule Suc.IH)
    show "pairs st1 \<noteq> []" by (rule ne1)
    show "length (deck st1) = length (pairs st1)" using lend len1 by simp
    show "mset (deck st1) = mset (pairs st1)" using msd ms1 by simp
    show "idx st1 = (j + 1) mod length (pairs st1) + 1" using idx1 len1 by simp
  qed
  then show ?case using nq len1 ms1 by simp
qed

lemma start_quiz_first_draw:
  assumes sh: "is_shuffle sh" and ne: "pairs st \<noteq> []"
  shows "\<exists>st1. start_quiz sh st = Inr st1 \<and> pairs st1 \<noteq> [] \<and>
           length (pairs st1) = length (pairs st) \<and>
           mset (pairs st1) = mset (pairs st) \<and> deck st1 = pairs st1 \<and>
           idx st1 = 1 \<and> score st1 = 0 \<and> seen st1 = 1"
proof -
  obtain ps g where res: "sh (rng st) (pairs st) = (ps, g)" by (cases "sh (rng st) (pairs st)")
  have len: "length ps = length (pairs st)" using sh res by (rule shuffle_length)
  have ms: "mset ps = mset (pairs st)" using sh res by (rule shuffle_mset)
  have pos: "ps \<noteq> []" using ne len by auto
  let ?st0 = "update_score_label
      (st\<lparr>pairs := ps, deck := ps, idx := 0, score := 0, seen := 0,
          waiting_for_next := False, rng := g\<rparr>)"
  have i0: "idx ?st0 < length (deck ?st0)"
    using pos by (simp add: update_score_label_def Let_def)
  have eq: "start_quiz sh st = next_question sh ?st0" by (simp add: start_quiz_def res)
  show ?thesis
    unfolding eq next_question_advance [OF i0]
    using len ms pos by (simp add: update_score_label_def Let_def)
qed

text \<open>
  Claim C8. With a non-empty pair list, drawing a question never indexes the deck out
  of range, in any state. After \<^verbatim>\<open>start_quiz\<close>, which draws the first question,
  and \<open>k\<close> further draws the deck has the length of the pair list and the pointer is
  \<open>k mod len(pairs) + 1\<close>: it equals \<open>len(pairs)\<close> after exactly \<open>len(pairs)\<close> draws,
  and the draw after that first reshuffles the pairs into a new deck and resets the
  pointer, so that it reads position 0 and leaves the pointer at 1.
\<close>

theorem deck_never_out_of_range:
  assumes sh: "is_shuffle sh" and ne: "pairs st \<noteq> []"
  shows "(\<exists>st'. next_question sh st = Inr st') \<and>
         (\<exists>st1. start_quiz sh st = Inr st1 \<and>
            (\<forall>k. \<exists>st'. draw_many sh k st1 = Inr st' \<and>
               length (deck st') = length (pairs st) \<and>
               mset (deck st') = mset (pairs st) \<and>
               idx st' = k mod length (pairs st) + 1 \<and>
               (idx st' = length (deck st') \<longrightarrow>
                  (\<exists>st''. next_question sh st' = Inr st'' \<and>
                     deck st'' = fst (sh (rng st') (pairs st')) \<and>
                     idx st'' = 1 \<and> current st'' = Some (deck st'' ! 0)))))"
proof
  show "\<exists>st'. next_question sh st = Inr st'"
    using next_question_ok [OF sh ne] by blast
next
  from start_quiz_first_draw [OF sh ne]
  obtain st1 where st1: "start_quiz sh st = Inr st1" "pairs st1 \<noteq> []"
    "length (pairs st1) = length (pairs st)" "mset (pairs st1) = mset (pairs st)"
    "deck st1 = pairs st1" "idx st1 = 1"
    by blast
  have "\<exists>st'. draw_many sh k st1 = Inr st' \<and>
               length (deck st') = length (pairs st) \<and>
               mset (deck st') = mset (pairs st) \<and>
               idx st' = k mod length (pairs st) + 1 \<and>
               (idx st' = length (deck st') \<longrightarrow>
                  (\<exists>st''. next_question sh st' = Inr st'' \<and>
                     deck st'' = fst (sh (rng st') (pairs st')) \<and>
                     idx st'' = 1 \<and> current st'' = Some (deck st'' ! 0)))" for k
  proof -
    have "\<exists>st'. draw_many sh k st1 = Inr st' \<and>
           length (deck st') = length (pairs st1) \<and>
           mset (deck st') = mset (pairs st1) \<and>
           mset (pairs st') = mset (pairs st1) \<and>
           idx st' = (0 + k) mod length (pairs st1) + 1"
    proof (rule draw_many_cycles [OF sh])
      show "pairs st1 \<noteq> []" by (rule st1(2))
      show "length (deck st1) = length (pairs st1)" using st1(5) by simp
      show "mset (deck st1) = mset (pairs st1)" using st1(5) by simp
      show "idx st1 = 0 mod length (pairs st1) + 1" using st1(6) by simp
    qed
    then obtain st' where d: "draw_many sh k st1 = Inr st'"
      "length (deck st') = length (pairs st1)" "mset (deck st') = mset (pairs st1)"
      "mset (pairs st') = mset (pairs st1)" "idx st' = (0 + k) mod length (pairs st1) + 1"
      by blast
    have "length (pairs st') = length (pairs st1)" using d(4) by (rule mset_eq_length)
    then have ne': "pairs st' \<noteq> []" using st1(2) by auto
    from next_question_ok [OF sh ne']
    obtain st'' where n: "next_question sh st' = Inr st''"
      "if length (deck st') \<le> idx st'
       then deck st'' = fst (sh (rng st') (pairs st')) \<and> idx st'' = 1
       else deck st'' = deck st' \<and> idx st'' = idx st' + 1"
      "current st'' = Some (deck st'' ! (idx st'' - 1))"
      by blast
    have "idx st' = length (deck st') \<longrightarrow>
          (\<exists>st''. next_question sh st' = Inr st'' \<and>
             deck st'' = fst (sh (rng st') (pairs st')) \<and>
             idx st'' = 1 \<and> current st'' = Some (deck st'' ! 0))"
      using n by auto
    then show ?thesis using d st1(3,4) by simp
  qed
  then show "\<exists>st1. start_quiz sh st = Inr st1 \<and>
            (\<forall>k. \<exists>st'. draw_many sh k st1 = Inr st' \<and>
               length (deck st') = length (pairs st) \<and>
               mset (deck st') = mset (pairs st) \<and>
               idx st' = k mod length (pairs st) + 1 \<and>
               (idx st' = length (deck st') \<longrightarrow>
                  (\<exists>st''. next_question sh st' = Inr st'' \<and>
                     deck st'' = fst (sh (rng st') (pairs st')) \<and>
                     idx st'' = 1 \<and> current st'' = Some (deck st'' ! 0))))"
    using st1(1) by blast
qed

theorem deck_never_out_of_range_witness:
  "\<exists>st'. draw_many rev_shuffle 1 asked = Inr st' \<and> idx st' = 2 \<and> length (deck st') = 2 \<and>
     (\<exists>st''. next_question rev_shuffle st' = Inr st'' \<and> idx st'' = 1 \<and>
        deck st'' = fst (rev_shuffle (rng st') (pairs st')))"
proof -
  have ne: "pairs (new_app quiz_pairs 0) \<noteq> []" by (simp add: new_app_def quiz_pairs_def)
  have len: "length (pairs (new_app quiz_pairs 0)) = 2" by (simp add: new_app_def quiz_pairs_def)
  have st: "start_quiz rev_shuffle (new_app quiz_pairs 0) = Inr asked" by code_simp
  from deck_never_out_of_range [OF is_shuffle_rev ne] st
  have "\<forall>k. \<exists>st'. draw_many rev_shuffle k asked = Inr st' \<and>
               length (deck st') = length (pairs (new_app quiz_pairs 0)) \<and>
               mset (deck st') = mset (pairs (new_app quiz_pairs 0)) \<and>
               idx st' = k mod length (pairs (new_app quiz_pairs 0)) + 1 \<and>
               (idx st' = length (deck st') \<longrightarrow>
                  (\<exists>st''. next_question rev_shuffle st' = Inr st'' \<and>
                     deck st'' = fst (rev_shuffle (rng st') (pairs st')) \<and>
                     idx st'' = 1 \<and> current st'' = Some (deck st'' ! 0)))"
    by simp
  then obtain st' where d: "draw_many rev_shuffle 1 asked = Inr st'"
      "length (deck st') = length (pairs (new_app quiz_pairs 0))"
      "idx st' = 1 mod length (pairs (new_app quiz_pairs 0)) + 1"
      "idx st' = length (deck st') \<longrightarrow>
                  (\<exists>st''. next_question rev_shuffle st' = Inr st'' \<and>
                     deck st'' = fst (rev_shuffle (rng st') (pairs st')) \<and>
                     idx st'' = 1 \<and> current st'' = Some (deck st'' ! 0))"
    by blast
  have "idx st' = 2" "length (deck st') = 2" using d(2,3) len by simp_all
  with d(1,4) show ?thesis by auto
qed

subsection \<open>Submitting a guess\<close>

text \<open>
  Claim C7. While \<^verbatim>\<open>waiting_for_next\<close> is set, \<^verbatim>\<open>submit\<close> returns at once
  and leaves the whole state as it is: score, seen, the current word and article and
  the flag itself.
\<close>

theorem submit_ignored_while_waiting:
  "waiting_for_next st \<Longrightarrow> submit guess st = Inr st"
  by (simp add: submit_def)

theorem submit_ignored_while_waiting_witness:
  "waiting_for_next awaiting \<and> submit ''der'' awaiting = Inr awaiting"
proof -
  have w: "waiting_for_next awaiting" by code_simp
  from submit_ignored_while_waiting [OF w, of "''der''"] w show ?thesis by simp
qed

text \<open>
  Claim C6 as stated fails for the wrong answer: in the state \<^verbatim>\<open>start_quiz\<close>
  leaves, with Mann on screen, score 0 and seen 1, submitting \<open>das\<close> sets
  \<^verbatim>\<open>waiting_for_next\<close> and leaves seen at 1.
\<close>

theorem wrong_answer_counterexample:
  "start_quiz rev_shuffle (new_app quiz_pairs 0) = Inr asked \<and>
   \<not> waiting_for_next asked \<and> current asked = Some (''Mann'', ''der'') \<and>
   score asked = 0 \<and> seen asked = 1 \<and>
   submit ''das'' asked = Inr awaiting \<and>
   waiting_for_next awaiting \<and> score awaiting = 0 \<and> seen awaiting = 1"
  by code_simp

text \<open>
  Claim C6, as amended. In a running state (a question on screen, not waiting) a correct
  guess adds 1 to score at once, leaves seen alone and schedules the next draw, and that
  draw adds 1 to seen; a wrong guess leaves score and seen alone and sets
  \<^verbatim>\<open>waiting_for_next\<close>, which every further \<^verbatim>\<open>submit\<close> leaves set, and the
  draw that acknowledges it clears the flag and adds 1 to seen.
\<close>

theorem submit_outcomes:
  assumes run: "\<not> waiting_for_next st" and cur: "current st = Some (word, art)"
    and sh: "is_shuffle sh" and ne: "pairs st \<noteq> []"
  shows "(guess = art \<longrightarrow>
            (\<exists>st'. submit guess st = Inr st' \<and>
               score st' = score st + 1 \<and> seen st' = seen st \<and>
               \<not> waiting_for_next st' \<and> scheduled st' = scheduled st + 1 \<and>
               (\<exists>st''. fire_scheduled sh st' = Inr st'' \<and>
                  score st'' = score st + 1 \<and> seen st'' = seen st + 1))) \<and>
         (guess \<noteq> art \<longrightarrow>
            (\<exists>st'. submit guess st = Inr st' \<and>
               score st' = score st \<and> seen st' = seen st \<and> waiting_for_next st' \<and>
               (\<forall>g. submit g st' = Inr st') \<and>
               (\<exists>st''. next_question sh st' = Inr st'' \<and> \<not> waiting_for_next st'' \<and>
                  score st'' = score st \<and> seen st'' = seen st + 1)))"
proof (intro conjI impI)
  assume g: "guess = art"
  let ?st' = "(update_score_label (st\<lparr>score := score st + 1\<rparr>))\<lparr>scheduled := scheduled st + 1\<rparr>"
  let ?mid = "?st'\<lparr>scheduled := scheduled ?st' - 1\<rparr>"
  have s: "submit guess st = Inr ?st'" using run cur g by (simp add: submit_def)
  have p: "pairs ?mid \<noteq> []" using ne by (simp add: update_score_label_def Let_def)
  from next_question_ok [OF sh p]
  obtain st'' where n: "next_question sh ?mid = Inr st''"
    "seen st'' = seen ?mid + 1" "score st'' = score ?mid" by blast
  have f: "fire_scheduled sh ?st' = next_question sh ?mid"
    by (simp add: fire_scheduled_def update_score_label_def Let_def)
  have "fire_scheduled sh ?st' = Inr st'' \<and> score st'' = score st + 1 \<and> seen st'' = seen st + 1"
    using n f by (simp add: update_score_label_def Let_def)
  then show "\<exists>st'. submit guess st = Inr st' \<and>
               score st' = score st + 1 \<and> seen st' = seen st \<and>
               \<not> waiting_for_next st' \<and> scheduled st' = scheduled st + 1 \<and>
               (\<exists>st''. fire_scheduled sh st' = Inr st'' \<and>
                  score st'' = score st + 1 \<and> seen st'' = seen st + 1)"
    using s run by (auto simp: update_score_label_def Let_def)
next
  assume g: "guess \<noteq> art"
  let ?st' = "update_score_label (st\<lparr>waiting_for_next := True\<rparr>)"
  have s: "submit guess st = Inr ?st'" using run cur g by (simp add: submit_def)
  have w: "waiting_for_next ?st'" by (simp add: update_score_label_def Let_def)
  have ig: "\<forall>g. submit g ?st' = Inr ?st'" using w by (simp add: submit_def)
  have p: "pairs ?st' \<noteq> []" using ne by (simp add: update_score_label_def Let_def)
  from next_question_ok [OF sh p]
  obtain st'' where n: "next_question sh ?st' = Inr st''"
    "seen st'' = seen ?st' + 1" "score st'' = score ?st'" "\<not> waiting_for_next st''" by blast
  have "next_question sh ?st' = Inr st'' \<and> \<not> waiting_for_next st'' \<and>
        score st'' = score st \<and> seen st'' = seen st + 1"
    using n by simp
  then show "\<exists>st'. submit guess st = Inr st' \<and>
               score st' = score st \<and> seen st' = seen st \<and> waiting_for_next st' \<and>
               (\<forall>g. submit g st' = Inr st') \<and>
               (\<exists>st''. next_question sh st' = Inr st'' \<and> \<not> waiting_for_next st'' \<and>
                  score st'' = score st \<and> seen st'' = seen st + 1)"
    using s w ig by (intro exI [of _ ?st']) auto
qed

theorem submit_outcomes_witness:
  "(\<exists>st'. submit ''der'' asked = Inr st' \<and> score st' = 1 \<and> seen st' = 1 \<and>
      (\<exists>st''. fire_scheduled rev_shuffle st' = Inr st'' \<and> score st'' = 1 \<and> seen st'' = 2)) \<and>
   (\<exists>st'. submit ''das'' asked = Inr st' \<and> score st' = 0 \<and> seen st' = 1 \<and>
      waiting_for_next st' \<and>
      (\<exists>st''. next_question rev_shuffle st' = Inr st'' \<and> \<not> waiting_for_next st'' \<and>
         score st'' = 0 \<and> seen st'' = 2))"
proof -
  have r: "\<not> waiting_for_next asked" by code_simp
  have c: "current asked = Some (''Mann'', ''der'')" by code_simp
  have p: "pairs asked \<noteq> []" by code_simp
  have v: "score asked = 0" "seen asked = 1" by code_simp+
  have d: "''das'' \<noteq> ''der''" by simp
  from submit_outcomes [OF r c is_shuffle_rev p, of "''der''"]
       submit_outcomes [OF r c is_shuffle_rev p, of "''das''"] d
  show ?thesis unfolding v by auto
qed

end
